theory Spec2Isabelle
  imports Main "HOL-Library.AList"
begin

section \<open>The sprite rendering and caching engine (KGameRenderer)\<close>

text \<open>
  A shallow embedding of the renderer translation unit: the private engine object
  (\<open>KGameRendererPrivate\<close>), the public facade (\<open>KGameRenderer\<close>), the rendering
  jobs (\<open>KGRInternal::Worker\<close>) and the pool of SVG renderers
  (\<open>KGRInternal::RendererPool\<close>). Member functions become functions on a record of the
  object's fields and return the updated record. A dereference of a null pointer and a
  signed overflow are results of the sum type \<open>error + 'a\<close>. Calls into collaborators
  (the persistent image cache, the clients, the signal \<open>themeChanged\<close>) are appended to a
  trace, so that what the engine asked of them can be stated.
\<close>

subsection \<open>Strings: decimal numbers and \<open>QString::arg\<close>\<close>

text \<open>The decimal text of a number, as \<open>QString::number\<close> and \<open>QByteArray::number\<close> print it.\<close>

definition digitChar :: "nat \<Rightarrow> char" where
  "digitChar d = char_of (48 + d)"

fun digits :: "nat \<Rightarrow> string" where
  "digits n = (if n < 10 then [digitChar n] else digits (n div 10) @ [digitChar (n mod 10)])"

declare digits.simps [simp del]

definition number :: "int \<Rightarrow> string" where
  "number i = (if i < 0 then CHR ''-'' # digits (nat (- i)) else digits (nat i))"

text \<open>\<open>QChar::digitValue\<close> on the characters 0 to 9; \<open>None\<close> stands for -1.\<close>

definition digitValue :: "char \<Rightarrow> nat option" where
  "digitValue c =
     (let n = of_char c :: nat in if 48 \<le> n \<and> n \<le> 57 then Some (n - 48) else None)"

text \<open>
  \<open>QString::arg\<close> belongs to the Qt library. It scans the string for place markers: a
  percent sign, an optional \<open>L\<close>, and one or two digits. It replaces every marker that
  carries the lowest number by the argument and leaves the string as it is when there is
  no marker. \<open>tokens\<close> is the scan (each marker keeps its own text), \<open>markers\<close> the
  numbers found, \<open>arg_text\<close> the replacement. The locale flag \<open>L\<close> only changes how
  a number is grouped, which is not modelled.
\<close>

datatype token = Lit char | Marker nat string

fun tokens :: "string \<Rightarrow> token list" where
  "tokens [] = []"
| "tokens [c] = [Lit c]"
| "tokens (c # d # ds) =
     (if c \<noteq> CHR ''%'' then Lit c # tokens (d # ds)
      else if d = CHR ''L'' then
        (case ds of
           [] \<Rightarrow> [Lit c, Lit d]
         | e # es \<Rightarrow>
             (case digitValue e of
                None \<Rightarrow> Lit c # Lit d # tokens (e # es)
              | Some n \<Rightarrow>
                  (case es of
                     [] \<Rightarrow> [Marker n [c, d, e]]
                   | f # fs \<Rightarrow>
                       (case digitValue f of
                          None \<Rightarrow> Marker n [c, d, e] # tokens (f # fs)
                        | Some m \<Rightarrow> Marker (10 * n + m) [c, d, e, f] # tokens fs))))
      else
        (case digitValue d of
           None \<Rightarrow> Lit c # tokens (d # ds)
         | Some n \<Rightarrow>
             (case ds of
                [] \<Rightarrow> [Marker n [c, d]]
              | f # fs \<Rightarrow>
                  (case digitValue f of
                     None \<Rightarrow> Marker n [c, d] # tokens (f # fs)
                   | Some m \<Rightarrow> Marker (10 * n + m) [c, d, f] # tokens fs))))"

fun markers :: "token list \<Rightarrow> nat list" where
  "markers [] = []"
| "markers (Lit c # ts) = markers ts"
| "markers (Marker n txt # ts) = n # markers ts"

fun replace :: "nat \<Rightarrow> string \<Rightarrow> token list \<Rightarrow> string" where
  "replace lo a [] = []"
| "replace lo a (Lit c # ts) = c # replace lo a ts"
| "replace lo a (Marker n txt # ts) = (if n = lo then a else txt) @ replace lo a ts"

definition arg_text :: "string \<Rightarrow> string \<Rightarrow> string" where
  "arg_text s a =
     (case markers (tokens s) of
        [] \<Rightarrow> s
      | m # ms \<Rightarrow> replace (fold min ms m) a (tokens s))"

definition arg :: "string \<Rightarrow> int \<Rightarrow> string" where
  "arg s i = arg_text s (number i)"

text \<open>\<open>QString::contains\<close>: the pattern occurs somewhere in the string.\<close>

fun contains :: "string \<Rightarrow> string \<Rightarrow> bool" where
  "contains [] pat = (pat = [])"
| "contains (c # cs) pat = (take (length pat) (c # cs) = pat \<or> contains cs pat)"

subsection \<open>Values: rectangles, images, byte arrays, SVG documents\<close>

text \<open>
  The engine stores and compares these values and never computes with them, so they are
  modelled by what they were made from. A rectangle has four coordinates (\<open>qreal\<close> in
  the source); \<open>QRectF()\<close> is the rectangle of zeros. A \<open>QImage\<close> is the transparent
  image of a width and a height onto which a worker painted an element through a colour
  substitution (the element is \<open>None\<close> when the renderer did not know it and painted
  nothing), or the null image of \<open>QImage()\<close>. A \<open>QPixmap\<close> is null or converted from an image. A \<open>QByteArray\<close> of the
  persistent cache holds decimal text (\<open>QByteArray::number\<close>) or a rectangle written through
  a \<open>QDataStream\<close>.
\<close>

datatype QRectF = QRectF int int int int

definition nullRect :: QRectF where
  "nullRect = QRectF 0 0 0 0"

type_synonym QRgb = nat

datatype QImage = NullImage | QImage int int "string option" "(QRgb \<times> QRgb) list"

datatype QPixmap = NullPixmap | FromImage QImage

definition fromImage :: "QImage \<Rightarrow> QPixmap" where
  "fromImage img = (if img = NullImage then NullPixmap else FromImage img)"

datatype QByteArray = Text string | Stream QRectF

text \<open>
  \<open>QByteArray::toInt\<close>: the decimal value of the text, 0 when the text is not a number
  of the range of \<open>int\<close>.
\<close>

fun digitsValue :: "nat \<Rightarrow> string \<Rightarrow> nat option" where
  "digitsValue acc [] = Some acc"
| "digitsValue acc (c # cs) =
     (case digitValue c of None \<Rightarrow> None | Some d \<Rightarrow> digitsValue (10 * acc + d) cs)"

definition parseInt :: "string \<Rightarrow> int option" where
  "parseInt s =
     (case s of
        [] \<Rightarrow> None
      | c # cs \<Rightarrow>
          if c = CHR ''-'' then
            (if cs = [] then None else map_option (\<lambda>n. - int n) (digitsValue 0 cs))
          else map_option int (digitsValue 0 (c # cs)))"

definition INT_MAX :: int where
  "INT_MAX = 2147483647"

definition INT_MIN :: int where
  "INT_MIN = - 2147483648"

definition toInt :: "QByteArray \<Rightarrow> int" where
  "toInt b =
     (case b of
        Stream r \<Rightarrow> 0
      | Text s \<Rightarrow>
          (case parseInt s of
             None \<Rightarrow> 0
           | Some i \<Rightarrow> if INT_MIN \<le> i \<and> i \<le> INT_MAX then i else 0))"

text \<open>Reading a rectangle back from a stream over the byte array.\<close>

definition readRect :: "QByteArray \<Rightarrow> QRectF" where
  "readRect b = (case b of Stream r \<Rightarrow> r | Text s \<Rightarrow> nullRect)"

text \<open>
  An SVG document is the list of its element ids with their bounds. The file system maps
  a path to the document a \<open>QSvgRenderer\<close> loads from it, \<open>None\<close> when the file is
  missing or not valid SVG. A renderer object is its address and the document it loaded.
\<close>

type_synonym svgdoc = "(string \<times> QRectF) list"

type_synonym files = "string \<Rightarrow> svgdoc option"

datatype QSvgRenderer = QSvgRenderer nat "svgdoc option"

fun isValid :: "QSvgRenderer \<Rightarrow> bool" where
  "isValid (QSvgRenderer a doc) = (doc \<noteq> None)"

fun elementExists :: "QSvgRenderer \<Rightarrow> string \<Rightarrow> bool" where
  "elementExists (QSvgRenderer a None) e = False"
| "elementExists (QSvgRenderer a (Some doc)) e = (map_of doc e \<noteq> None)"

fun boundsOnElement :: "QSvgRenderer \<Rightarrow> string \<Rightarrow> QRectF" where
  "boundsOnElement (QSvgRenderer a None) e = nullRect"
| "boundsOnElement (QSvgRenderer a (Some doc)) e =
     (case map_of doc e of None \<Rightarrow> nullRect | Some r \<Rightarrow> r)"

fun address :: "QSvgRenderer \<Rightarrow> nat" where
  "address (QSvgRenderer a doc) = a"

subsection \<open>Errors\<close>

datatype error =
    NullRenderer      \<comment> \<open>a member call on the null pointer \<open>allocRenderer\<close> returned\<close>
  | NullImageCache    \<comment> \<open>a member call on \<open>m_imageCache\<close> while it is null\<close>
  | IntOverflow       \<comment> \<open>signed overflow of an \<open>int\<close>\<close>
  | StackOverflow     \<comment> \<open>a recursion between \<open>setTheme\<close> and the clients that does not end\<close>

definition checked :: "int \<Rightarrow> error + int" where
  "checked i = (if INT_MIN \<le> i \<and> i \<le> INT_MAX then Inr i else Inl IntOverflow)"

subsection \<open>\<open>KGRInternal::RendererPool\<close>\<close>

text \<open>
  \<open>m_hash\<close> maps each renderer of the pool to the thread that uses it, the null thread
  (\<open>None\<close>) when it is idle. The \<open>QHash\<close> is an association list; \<open>hash_key\<close> is
  \<open>QHash::key\<close>, which gives the first key that carries the value and the null pointer
  when there is none.
\<close>

datatype Validity = Checked_Invalid | Checked_Valid | Unchecked

type_synonym thread = nat

record RendererPool =
  m_path :: string
  m_valid :: Validity
  m_hash :: "(QSvgRenderer \<times> thread option) list"

fun hash_key :: "('k \<times> 'v) list \<Rightarrow> 'v \<Rightarrow> 'k option" where
  "hash_key [] v = None"
| "hash_key ((k, x) # m) v = (if x = v then Some k else hash_key m v)"

text \<open>The constructor: no renderer is handed out before a path is set.\<close>

definition RendererPool_new :: RendererPool where
  "RendererPool_new = \<lparr>m_path = [], m_valid = Checked_Invalid, m_hash = []\<rparr>"

text \<open>
  \<open>setPath\<close> deletes the renderers and binds the pool to a path. A renderer passed in is
  evidence that the file is valid. The wait for the thread pool is the caller's concern in
  this model: the function is applied when no worker runs.
\<close>

definition setPath :: "string \<Rightarrow> QSvgRenderer option \<Rightarrow> RendererPool \<Rightarrow> RendererPool" where
  "setPath svgPath renderer p =
     (case renderer of
        Some r \<Rightarrow> \<lparr>m_path = svgPath, m_valid = Checked_Valid, m_hash = [(r, None)]\<rparr>
      | None \<Rightarrow> \<lparr>m_path = svgPath, m_valid = Unchecked, m_hash = []\<rparr>)"

definition hasAvailableRenderers :: "RendererPool \<Rightarrow> bool" where
  "hasAvailableRenderers p = (hash_key (m_hash p) None \<noteq> None)"

text \<open>\<open>new QSvgRenderer(m_path)\<close>: an address no renderer of the pool has.\<close>

definition freshAddress :: "(QSvgRenderer \<times> thread option) list \<Rightarrow> nat" where
  "freshAddress h = Suc (fold max (map (address \<circ> fst) h) 0)"

definition allocRenderer ::
  "files \<Rightarrow> thread \<Rightarrow> RendererPool \<Rightarrow> QSvgRenderer option \<times> RendererPool" where
  "allocRenderer fs t p =
     (case hash_key (m_hash p) None of
        Some r \<Rightarrow> (Some r, p\<lparr>m_hash := AList.update r (Some t) (m_hash p)\<rparr>)
      | None \<Rightarrow>
          if m_valid p = Checked_Invalid then (None, p)
          else
            (let r = QSvgRenderer (freshAddress (m_hash p)) (fs (m_path p))
             in (Some r,
                 p\<lparr>m_valid := (if isValid r then Checked_Valid else Checked_Invalid),
                   m_hash := AList.update r (Some t) (m_hash p)\<rparr>)))"

definition freeRenderer :: "QSvgRenderer \<Rightarrow> RendererPool \<Rightarrow> RendererPool" where
  "freeRenderer r p = p\<lparr>m_hash := AList.update r None (m_hash p)\<rparr>"

subsection \<open>The engine's state\<close>

text \<open>
  \<open>KImageCache\<close> is the persistent store: byte arrays and images under string keys.
  \<open>m_imageCache\<close> is a pointer, null (\<open>None\<close>) after the constructor.
\<close>

record KImageCache =
  entries :: "string \<rightharpoonup> QByteArray"
  images :: "string \<rightharpoonup> QImage"

datatype Strategy = UseDiskCache | UseRenderingThreads

type_synonym client = nat

text \<open>
  \<open>KGRInternal::ClientSpec\<close> and \<open>KGRInternal::Job\<close>; the fields carry a prefix
  because their names are used for variables below. The colours are the pairs of the
  \<open>QHash\<close> in the order its iterator gives them.
\<close>

record ClientSpec =
  spec_spriteKey :: string
  spec_frame :: int
  spec_width :: int
  spec_height :: int
  spec_customColors :: "(QRgb \<times> QRgb) list"

record Job =
  job_cacheKey :: string
  job_elementKey :: string
  job_spec :: ClientSpec
  job_result :: QImage

text \<open>What the engine asked of its collaborators, in order.\<close>

datatype event =
    Find string                      \<comment> \<open>\<open>m_imageCache->find\<close>\<close>
  | Insert string QByteArray         \<comment> \<open>\<open>m_imageCache->insert\<close>\<close>
  | FindPixmap string                \<comment> \<open>\<open>m_imageCache->findPixmap\<close>\<close>
  | InsertImage string QImage        \<comment> \<open>\<open>m_imageCache->insertImage\<close>\<close>
  | ReceivePixmap client QPixmap     \<comment> \<open>\<open>client->receivePixmap\<close>\<close>
  | ThemeChanged string              \<comment> \<open>the signal \<open>themeChanged\<close>\<close>

text \<open>
  The fields of \<open>KGameRendererPrivate\<close> the functions below read or write (the size
  of the persistent cache and the default view are left out). \<open>m_strategies\<close> is a \<open>QFlags\<close> over the two
  strategies, modelled as the set of the enabled ones. \<open>m_clients\<close> maps a client to the
  cache key of its latest request. \<open>m_workerPool\<close> holds the jobs started on the thread
  pool and not finished yet. \<open>svgFiles\<close> is the file system the renderers load from and
  \<open>trace\<close> the calls made so far; neither is a field of the source.
\<close>

record engine =
  m_defaultTheme :: string
  m_frameSuffix :: string
  m_sizePrefix :: string
  m_frameCountPrefix :: string
  m_boundsPrefix :: string
  m_strategies :: "Strategy set"
  m_frameBaseIndex :: int
  m_currentTheme :: string
  m_rendererPool :: RendererPool
  m_imageCache :: "KImageCache option"
  m_frameCountCache :: "string \<rightharpoonup> int"
  m_boundsCache :: "string \<rightharpoonup> QRectF"
  m_pixmapCache :: "string \<rightharpoonup> QPixmap"
  m_clients :: "(client \<times> string) list"
  m_pendingRequests :: "string list"
  m_workerPool :: "Job list"
  svgFiles :: files
  trace :: "event list"

definition emit :: "event \<Rightarrow> engine \<Rightarrow> engine" where
  "emit e s = s\<lparr>trace := trace s @ [e]\<rparr>"

text \<open>The constructor of \<open>KGameRendererPrivate\<close>.\<close>

definition KGameRendererPrivate_new :: "string \<Rightarrow> files \<Rightarrow> engine" where
  "KGameRendererPrivate_new defaultTheme fs =
     \<lparr>m_defaultTheme = defaultTheme,
      m_frameSuffix = ''_%1'',
      m_sizePrefix = ''%1-%2-'',
      m_frameCountPrefix = ''fc-'',
      m_boundsPrefix = ''br-'',
      m_strategies = {UseDiskCache, UseRenderingThreads},
      m_frameBaseIndex = 0,
      m_currentTheme = [],
      m_rendererPool = RendererPool_new,
      m_imageCache = None,
      m_frameCountCache = Map.empty,
      m_boundsCache = Map.empty,
      m_pixmapCache = Map.empty,
      m_clients = [],
      m_pendingRequests = [],
      m_workerPool = [],
      svgFiles = fs,
      trace = []\<rparr>"

text \<open>The thread that owns the engine; the workers of the pool have other numbers.\<close>

definition controlThread :: thread where
  "controlThread = 0"

subsection \<open>Calls on the persistent cache\<close>

text \<open>
  Every call dereferences \<open>m_imageCache\<close> and is recorded in the trace. \<open>find\<close> and
  \<open>findPixmap\<close> give what is stored under the key; \<open>insert\<close> and \<open>insertImage\<close>
  store a value.
\<close>

definition imageCache_find :: "string \<Rightarrow> engine \<Rightarrow> error + (QByteArray option \<times> engine)" where
  "imageCache_find k s =
     (case m_imageCache s of
        None \<Rightarrow> Inl NullImageCache
      | Some ic \<Rightarrow> Inr (entries ic k, emit (Find k) s))"

definition imageCache_insert :: "string \<Rightarrow> QByteArray \<Rightarrow> engine \<Rightarrow> error + engine" where
  "imageCache_insert k buffer s =
     (case m_imageCache s of
        None \<Rightarrow> Inl NullImageCache
      | Some ic \<Rightarrow>
          Inr (emit (Insert k buffer)
                 (s\<lparr>m_imageCache := Some (ic\<lparr>entries := (entries ic)(k \<mapsto> buffer)\<rparr>)\<rparr>)))"

definition imageCache_findPixmap :: "string \<Rightarrow> engine \<Rightarrow> error + (QPixmap option \<times> engine)" where
  "imageCache_findPixmap k s =
     (case m_imageCache s of
        None \<Rightarrow> Inl NullImageCache
      | Some ic \<Rightarrow> Inr (map_option fromImage (images ic k), emit (FindPixmap k) s))"

definition imageCache_insertImage :: "string \<Rightarrow> QImage \<Rightarrow> engine \<Rightarrow> error + engine" where
  "imageCache_insertImage k img s =
     (case m_imageCache s of
        None \<Rightarrow> Inl NullImageCache
      | Some ic \<Rightarrow>
          Inr (emit (InsertImage k img)
                 (s\<lparr>m_imageCache := Some (ic\<lparr>images := (images ic)(k \<mapsto> img)\<rparr>)\<rparr>)))"

subsection \<open>Setters of the facade\<close>

definition setFrameBaseIndex :: "int \<Rightarrow> engine \<Rightarrow> engine" where
  "setFrameBaseIndex frameBaseIndex s = s\<lparr>m_frameBaseIndex := frameBaseIndex\<rparr>"

definition setFrameSuffix :: "string \<Rightarrow> engine \<Rightarrow> engine" where
  "setFrameSuffix suffix s =
     s\<lparr>m_frameSuffix := (if contains suffix ''%1'' then suffix else ''_%1'')\<rparr>"

subsection \<open>\<open>setTheme\<close>\<close>

text \<open>
  \<open>KGameRendererPrivate::setTheme\<close> is a stub in this source: it reports success and
  changes nothing.
\<close>

definition KGameRendererPrivate_setTheme :: "string \<Rightarrow> engine \<Rightarrow> bool \<times> engine" where
  "KGameRendererPrivate_setTheme theme s = (True, s)"

text \<open>
  \<open>KGameRenderer::setTheme\<close> calls the private loader and then
  \<open>KGameRendererClientPrivate::fetchPixmap\<close> for every registered client. The code of
  \<open>fetchPixmap\<close> is not part of the source (it belongs to the client class), so it is
  the parameter \<open>fp\<close>. The loader is the parameter \<open>ld\<close>, so that the fallback of
  \<open>setTheme\<close> can be stated for a loader that fails; the loader of this source is
  \<open>KGameRendererPrivate_setTheme\<close>.
\<close>

type_synonym loader = "string \<Rightarrow> engine \<Rightarrow> bool \<times> engine"

type_synonym fetcher = "client \<Rightarrow> engine \<Rightarrow> error + engine"

text \<open>The loop over \<open>m_clients\<close>: clear the recorded key, then fetch.\<close>

fun announce :: "fetcher \<Rightarrow> client list \<Rightarrow> engine \<Rightarrow> error + engine" where
  "announce fp [] s = Inr s"
| "announce fp (c # cs) s =
     (case fp c (s\<lparr>m_clients := AList.update c [] (m_clients s)\<rparr>) of
        Inl e \<Rightarrow> Inl e
      | Inr s' \<Rightarrow> announce fp cs s')"

text \<open>The second half of \<open>setTheme\<close>: announce the change to the clients and publicly.\<close>

definition setTheme_announce :: "fetcher \<Rightarrow> string \<Rightarrow> engine \<Rightarrow> error + engine" where
  "setTheme_announce fp oldTheme s =
     (case announce fp (map fst (m_clients s)) s of
        Inl e \<Rightarrow> Inl e
      | Inr s' \<Rightarrow>
          Inr (if oldTheme \<noteq> m_currentTheme s'
               then emit (ThemeChanged (m_currentTheme s')) s' else s'))"

definition setTheme :: "loader \<Rightarrow> fetcher \<Rightarrow> string \<Rightarrow> engine \<Rightarrow> error + engine" where
  "setTheme ld fp theme s =
     (let oldTheme = m_currentTheme s in
      if oldTheme = theme then Inr s
      else
        (let (ok, s1) = ld theme s
         in if \<not> ok \<and> theme \<noteq> m_defaultTheme s1
            then setTheme_announce fp oldTheme (snd (ld (m_defaultTheme s1) s1))
            else setTheme_announce fp oldTheme s1))"

text \<open>The block "ensure that some theme is loaded" of the three queries.\<close>

definition ensureTheme :: "loader \<Rightarrow> fetcher \<Rightarrow> engine \<Rightarrow> error + engine" where
  "ensureTheme ld fp s =
     (if m_currentTheme s = [] then setTheme ld fp (m_defaultTheme s) s else Inr s)"

definition setStrategyEnabled ::
  "loader \<Rightarrow> fetcher \<Rightarrow> Strategy \<Rightarrow> bool \<Rightarrow> engine \<Rightarrow> error + engine" where
  "setStrategyEnabled ld fp strategy enabled s =
     (let oldEnabled = (strategy \<in> m_strategies s);
          s1 = s\<lparr>m_strategies :=
                 (if enabled then insert strategy (m_strategies s)
                  else m_strategies s - {strategy})\<rparr>
      in if strategy = UseDiskCache \<and> oldEnabled \<noteq> enabled
         then setTheme ld fp (m_currentTheme s1) (s1\<lparr>m_currentTheme := []\<rparr>)
         else Inr s1)"

subsection \<open>\<open>frameCount\<close> and \<open>spriteFrameKey\<close>\<close>

text \<open>The remainder of C++: the quotient is truncated towards zero.\<close>

definition cpp_rem :: "int \<Rightarrow> int \<Rightarrow> int" where
  "cpp_rem a b = sgn a * (\<bar>a\<bar> mod \<bar>b\<bar>)"

text \<open>
  \<open>spriteFrameKey\<close> calls \<open>frameCount\<close> when it normalizes, and \<open>frameCount\<close> calls
  \<open>spriteFrameKey\<close> without normalization. \<open>frameKey\<close> is \<open>spriteFrameKey\<close> with
  \<open>normalizeFrameNo = false\<close>, which reads the suffix only.
\<close>

definition frameKey :: "engine \<Rightarrow> string \<Rightarrow> int \<Rightarrow> string" where
  "frameKey s key frame = (if frame < 0 then key else key @ arg (m_frameSuffix s) frame)"

text \<open>
  The loop \<open>while (renderer->elementExists(...)) ++count\<close>. Incrementing \<open>INT_MAX\<close> is
  undefined in C++; the model stops there with an error.
\<close>

function probe :: "(int \<Rightarrow> bool) \<Rightarrow> int \<Rightarrow> error + int" where
  "probe ex count =
     (if ex count
      then (if count < INT_MAX then probe ex (count + 1) else Inl IntOverflow)
      else Inr count)"
  by pat_completeness auto
termination
  by (relation "measure (\<lambda>(ex, count). nat (INT_MAX - count))") auto

declare probe.simps [simp del]

text \<open>The block "look up in shared cache" of \<open>frameCount\<close>: the count when it was found.\<close>

definition frameCount_shared :: "string \<Rightarrow> engine \<Rightarrow> error + (int option \<times> engine)" where
  "frameCount_shared key s =
     (let cacheKey = m_frameCountPrefix s @ key in
      if hasAvailableRenderers (m_rendererPool s) \<and> UseDiskCache \<in> m_strategies s then
        (case imageCache_find cacheKey s of
           Inl e \<Rightarrow> Inl e
         | Inr (buffer, s1) \<Rightarrow> Inr (map_option toInt buffer, s1))
      else Inr (None, s))"

text \<open>
  The probes of one renderer: the animated sprite first, then the sprite without frames.
\<close>

definition countFrames :: "QSvgRenderer \<Rightarrow> string \<Rightarrow> engine \<Rightarrow> error + int" where
  "countFrames renderer key s =
     (case probe (\<lambda>count. elementExists renderer (frameKey s key count))
             (m_frameBaseIndex s) of
        Inl e \<Rightarrow> Inl e
      | Inr stop \<Rightarrow>
          (case checked (stop - m_frameBaseIndex s) of
             Inl e \<Rightarrow> Inl e
           | Inr n \<Rightarrow> Inr (if n = 0 \<and> \<not> elementExists renderer key then - 1 else n)))"

text \<open>The block "determine from SVG" of \<open>frameCount\<close>, with the save in the shared cache.\<close>

definition frameCount_svg :: "string \<Rightarrow> engine \<Rightarrow> error + (int \<times> engine)" where
  "frameCount_svg key s =
     (let cacheKey = m_frameCountPrefix s @ key in
      case allocRenderer (svgFiles s) controlThread (m_rendererPool s) of
        (None, pool) \<Rightarrow> Inl NullRenderer
      | (Some renderer, pool) \<Rightarrow>
          (case countFrames renderer key s of
             Inl e \<Rightarrow> Inl e
           | Inr count \<Rightarrow>
               (let s1 = s\<lparr>m_rendererPool := freeRenderer renderer pool\<rparr>
                in if UseDiskCache \<in> m_strategies s1 then
                     (case imageCache_insert cacheKey (Text (number count)) s1 of
                        Inl e \<Rightarrow> Inl e
                      | Inr s2 \<Rightarrow> Inr (count, s2))
                   else Inr (count, s1))))"

definition frameCount :: "loader \<Rightarrow> fetcher \<Rightarrow> string \<Rightarrow> engine \<Rightarrow> error + (int \<times> engine)" where
  "frameCount ld fp key s =
     (case ensureTheme ld fp s of
        Inl e \<Rightarrow> Inl e
      | Inr s1 \<Rightarrow>
          if m_currentTheme s1 = [] then Inr (- 1, s1)
          else
            (case m_frameCountCache s1 key of
               Some n \<Rightarrow> Inr (n, s1)
             | None \<Rightarrow>
                 (case frameCount_shared key s1 of
                    Inl e \<Rightarrow> Inl e
                  | Inr (Some count, s2) \<Rightarrow>
                      Inr (count, s2\<lparr>m_frameCountCache := (m_frameCountCache s2)(key \<mapsto> count)\<rparr>)
                  | Inr (None, s2) \<Rightarrow>
                      (case frameCount_svg key s2 of
                         Inl e \<Rightarrow> Inl e
                       | Inr (count, s3) \<Rightarrow>
                           Inr (count,
                             s3\<lparr>m_frameCountCache := (m_frameCountCache s3)(key \<mapsto> count)\<rparr>)))))"

text \<open>
  \<open>spriteFrameKey\<close>. The subtraction and the addition are on \<open>int\<close>; a result out of
  range is an overflow.
\<close>

definition spriteFrameKey ::
  "loader \<Rightarrow> fetcher \<Rightarrow> string \<Rightarrow> int \<Rightarrow> bool \<Rightarrow> engine \<Rightarrow> error + (string \<times> engine)" where
  "spriteFrameKey ld fp key frame normalizeFrameNo s =
     (if frame < 0 then Inr (key, s)
      else if normalizeFrameNo then
        (case frameCount ld fp key s of
           Inl e \<Rightarrow> Inl e
         | Inr (frames, s1) \<Rightarrow>
             if frames \<le> 0 then Inr (key, s1)
             else
               (case checked (frame - m_frameBaseIndex s1) of
                  Inl e \<Rightarrow> Inl e
                | Inr d \<Rightarrow>
                    (case checked (cpp_rem d frames + m_frameBaseIndex s1) of
                       Inl e \<Rightarrow> Inl e
                     | Inr frame' \<Rightarrow> Inr (key @ arg (m_frameSuffix s1) frame', s1))))
      else Inr (key @ arg (m_frameSuffix s) frame, s))"

subsection \<open>\<open>boundsOnSprite\<close>\<close>

definition boundsOnSprite_shared ::
  "string \<Rightarrow> engine \<Rightarrow> error + (QRectF option \<times> engine)" where
  "boundsOnSprite_shared elementKey s =
     (let cacheKey = m_boundsPrefix s @ elementKey in
      if \<not> hasAvailableRenderers (m_rendererPool s) \<and> UseDiskCache \<in> m_strategies s then
        (case imageCache_find cacheKey s of
           Inl e \<Rightarrow> Inl e
         | Inr (buffer, s1) \<Rightarrow> Inr (map_option readRect buffer, s1))
      else Inr (None, s))"

definition boundsOnSprite_svg :: "string \<Rightarrow> engine \<Rightarrow> error + (QRectF \<times> engine)" where
  "boundsOnSprite_svg elementKey s =
     (let cacheKey = m_boundsPrefix s @ elementKey in
      case allocRenderer (svgFiles s) controlThread (m_rendererPool s) of
        (None, pool) \<Rightarrow> Inl NullRenderer
      | (Some renderer, pool) \<Rightarrow>
          (let bounds = boundsOnElement renderer elementKey;
               s1 = s\<lparr>m_rendererPool := freeRenderer renderer pool\<rparr>
           in if UseDiskCache \<in> m_strategies s1 then
                (case imageCache_insert cacheKey (Stream bounds) s1 of
                   Inl e \<Rightarrow> Inl e
                 | Inr s2 \<Rightarrow> Inr (bounds, s2))
              else Inr (bounds, s1)))"

text \<open>
  The part of \<open>boundsOnSprite\<close> after the element key is known, and the function itself,
  which computes the key first.
\<close>

definition boundsOnElementKey ::
  "loader \<Rightarrow> fetcher \<Rightarrow> string \<Rightarrow> engine \<Rightarrow> error + (QRectF \<times> engine)" where
  "boundsOnElementKey ld fp elementKey s =
     (case ensureTheme ld fp s of
        Inl e \<Rightarrow> Inl e
      | Inr s1 \<Rightarrow>
          if m_currentTheme s1 = [] then Inr (nullRect, s1)
          else
            (case m_boundsCache s1 elementKey of
               Some r \<Rightarrow> Inr (r, s1)
             | None \<Rightarrow>
                 (case boundsOnSprite_shared elementKey s1 of
                    Inl e \<Rightarrow> Inl e
                  | Inr (Some bounds, s2) \<Rightarrow>
                      Inr (bounds,
                        s2\<lparr>m_boundsCache := (m_boundsCache s2)(elementKey \<mapsto> bounds)\<rparr>)
                  | Inr (None, s2) \<Rightarrow>
                      (case boundsOnSprite_svg elementKey s2 of
                         Inl e \<Rightarrow> Inl e
                       | Inr (bounds, s3) \<Rightarrow>
                           Inr (bounds,
                             s3\<lparr>m_boundsCache := (m_boundsCache s3)(elementKey \<mapsto> bounds)\<rparr>)))))"

definition boundsOnSprite ::
  "loader \<Rightarrow> fetcher \<Rightarrow> string \<Rightarrow> int \<Rightarrow> engine \<Rightarrow> error + (QRectF \<times> engine)" where
  "boundsOnSprite ld fp key frame s =
     (case spriteFrameKey ld fp key frame True s of
        Inl e \<Rightarrow> Inl e
      | Inr (elementKey, s0) \<Rightarrow> boundsOnElementKey ld fp elementKey s0)"

definition spriteExists :: "loader \<Rightarrow> fetcher \<Rightarrow> string \<Rightarrow> engine \<Rightarrow> error + (bool \<times> engine)" where
  "spriteExists ld fp key s =
     (case frameCount ld fp key s of Inl e \<Rightarrow> Inl e | Inr (n, s1) \<Rightarrow> Inr (0 \<le> n, s1))"

subsection \<open>Jobs: \<open>jobFinished\<close> and \<open>Worker::run\<close>\<close>

text \<open>
  \<open>m_clients\<close> is a \<open>QHash\<close>, read as a map: the first pair of a key counts.
  \<open>hash_value\<close> is \<open>QHash::value\<close> (the empty string for a client that is not
  registered) and \<open>hash_keys\<close> is \<open>QHash::keys(value)\<close>.
\<close>

definition hash_value :: "(client \<times> string) list \<Rightarrow> client \<Rightarrow> string" where
  "hash_value m c = (case map_of m c of None \<Rightarrow> [] | Some v \<Rightarrow> v)"

definition hash_keys :: "(client \<times> string) list \<Rightarrow> string \<Rightarrow> client list" where
  "hash_keys m v = filter (\<lambda>c. map_of m c = Some v) (remdups (map fst m))"

fun receiveAll :: "client list \<Rightarrow> QPixmap \<Rightarrow> engine \<Rightarrow> engine" where
  "receiveAll [] pixmap s = s"
| "receiveAll (requester # rs) pixmap s = receiveAll rs pixmap (emit (ReceivePixmap requester pixmap) s)"

definition jobFinished_deliver :: "string \<Rightarrow> QImage \<Rightarrow> client list \<Rightarrow> engine \<Rightarrow> engine" where
  "jobFinished_deliver cacheKey img requesters s =
     (let pixmap = fromImage img
      in receiveAll requesters pixmap
           (s\<lparr>m_pixmapCache := (m_pixmapCache s)(cacheKey \<mapsto> pixmap)\<rparr>))"

definition jobFinished :: "Job \<Rightarrow> bool \<Rightarrow> engine \<Rightarrow> error + engine" where
  "jobFinished job isSynchronous s =
     (let cacheKey = job_cacheKey job;
          img = job_result job;
          s1 = s\<lparr>m_pendingRequests := removeAll cacheKey (m_pendingRequests s)\<rparr>;
          requesters = hash_keys (m_clients s1) cacheKey
      in if UseDiskCache \<in> m_strategies s1 then
           (case imageCache_insertImage cacheKey img s1 of
              Inl e \<Rightarrow> Inl e
            | Inr s2 \<Rightarrow>
                if \<not> isSynchronous \<and> requesters = [] then Inr s2
                else Inr (jobFinished_deliver cacheKey img requesters s2))
         else Inr (jobFinished_deliver cacheKey img requesters s1))"

text \<open>
  \<open>Worker::run\<close> on thread \<open>t\<close>: paint the element and hand the job to \<open>jobFinished\<close>.
  The renderer paints nothing for an element it does not know.
\<close>

definition Worker_run :: "thread \<Rightarrow> Job \<Rightarrow> bool \<Rightarrow> engine \<Rightarrow> error + engine" where
  "Worker_run t job isSynchronous s =
     (case allocRenderer (svgFiles s) t (m_rendererPool s) of
        (None, pool) \<Rightarrow> Inl NullRenderer
      | (Some renderer, pool) \<Rightarrow>
          (let image = QImage (spec_width (job_spec job)) (spec_height (job_spec job))
                         (if elementExists renderer (job_elementKey job)
                          then Some (job_elementKey job) else None)
                         (spec_customColors (job_spec job));
               s1 = s\<lparr>m_rendererPool := freeRenderer renderer pool\<rparr>
           in jobFinished (job\<lparr>job_result := image\<rparr>) isSynchronous s1))"

text \<open>A worker of the thread pool takes a started job and runs it.\<close>

definition runQueued :: "thread \<Rightarrow> Job \<Rightarrow> engine \<Rightarrow> error + engine" where
  "runQueued t job s =
     Worker_run t job False (s\<lparr>m_workerPool := remove1 job (m_workerPool s)\<rparr>)"

subsection \<open>\<open>requestPixmap\<close> and \<open>spritePixmap\<close>\<close>

text \<open>
  The cache key: the size prefix with width and height, the element key, and one suffix
  for every pair of colours.
\<close>

fun appendColors :: "string \<Rightarrow> (QRgb \<times> QRgb) list \<Rightarrow> string" where
  "appendColors cacheKey [] = cacheKey"
| "appendColors cacheKey ((k, v) # cs) =
     appendColors (cacheKey @ arg (arg ''-%1-%2'' (int k)) (int v)) cs"

definition makeCacheKey :: "engine \<Rightarrow> ClientSpec \<Rightarrow> string \<Rightarrow> string" where
  "makeCacheKey s spec elementKey =
     appendColors
       (arg (arg (m_sizePrefix s) (spec_width spec)) (spec_height spec) @ elementKey)
       (spec_customColors spec)"

text \<open>
  \<open>requestPixmap__propagateResult\<close>. The pixmap written through \<open>synchronousResult\<close>
  is the first component of the result of \<open>requestPixmap\<close>, \<open>None\<close> when nothing was
  written.
\<close>

definition propagateResult :: "QPixmap \<Rightarrow> client option \<Rightarrow> engine \<Rightarrow> engine" where
  "propagateResult pixmap client s =
     (case client of Some c \<Rightarrow> emit (ReceivePixmap c pixmap) s | None \<Rightarrow> s)"

text \<open>From "is such a rendering job already running?" to the end.\<close>

definition requestPixmap_dispatch ::
  "ClientSpec \<Rightarrow> client option \<Rightarrow> string \<Rightarrow> string \<Rightarrow> engine
     \<Rightarrow> error + (QPixmap option \<times> engine)" where
  "requestPixmap_dispatch spec client elementKey cacheKey s =
     (if client \<noteq> None \<and> cacheKey \<in> set (m_pendingRequests s) then Inr (None, s)
      else
        (let job = \<lparr>job_cacheKey = cacheKey, job_elementKey = elementKey,
                    job_spec = spec, job_result = NullImage\<rparr>
         in if client = None \<or> UseRenderingThreads \<notin> m_strategies s then
              (case Worker_run controlThread job True s of
                 Inl e \<Rightarrow> Inl e
               | Inr s1 \<Rightarrow>
                   (let pixmap = (case m_pixmapCache s1 cacheKey of
                                    None \<Rightarrow> NullPixmap | Some p \<Rightarrow> p)
                    in Inr (Some pixmap, propagateResult pixmap client s1)))
            else
              Inr (None,
                s\<lparr>m_workerPool := m_workerPool s @ [job],
                  m_pendingRequests := m_pendingRequests s @ [cacheKey]\<rparr>)))"

text \<open>The two caches, then the dispatch.\<close>

definition requestPixmap_serve ::
  "ClientSpec \<Rightarrow> client option \<Rightarrow> string \<Rightarrow> string \<Rightarrow> engine
     \<Rightarrow> error + (QPixmap option \<times> engine)" where
  "requestPixmap_serve spec client elementKey cacheKey s =
     (case m_pixmapCache s cacheKey of
        Some pixmap \<Rightarrow> Inr (Some pixmap, propagateResult pixmap client s)
      | None \<Rightarrow>
          if UseDiskCache \<in> m_strategies s then
            (case imageCache_findPixmap cacheKey s of
               Inl e \<Rightarrow> Inl e
             | Inr (Some pix, s1) \<Rightarrow>
                 Inr (Some pix,
                   propagateResult pix client
                     (s1\<lparr>m_pixmapCache := (m_pixmapCache s1)(cacheKey \<mapsto> pix)\<rparr>))
             | Inr (None, s1) \<Rightarrow> requestPixmap_dispatch spec client elementKey cacheKey s1)
          else requestPixmap_dispatch spec client elementKey cacheKey s)"

text \<open>From "ensure that some theme is loaded" on.\<close>

definition requestPixmap_themed ::
  "loader \<Rightarrow> fetcher \<Rightarrow> ClientSpec \<Rightarrow> client option \<Rightarrow> string \<Rightarrow> string \<Rightarrow> engine
     \<Rightarrow> error + (QPixmap option \<times> engine)" where
  "requestPixmap_themed ld fp spec client elementKey cacheKey s =
     (case ensureTheme ld fp s of
        Inl e \<Rightarrow> Inl e
      | Inr s1 \<Rightarrow>
          if m_currentTheme s1 = [] then Inr (None, s1)
          else requestPixmap_serve spec client elementKey cacheKey s1)"

text \<open>From "check if update is needed" on, with the keys computed.\<close>

definition requestPixmap_keyed ::
  "loader \<Rightarrow> fetcher \<Rightarrow> ClientSpec \<Rightarrow> client option \<Rightarrow> string \<Rightarrow> string \<Rightarrow> engine
     \<Rightarrow> error + (QPixmap option \<times> engine)" where
  "requestPixmap_keyed ld fp spec client elementKey cacheKey s =
     (case client of
        Some c \<Rightarrow>
          if hash_value (m_clients s) c = cacheKey then Inr (None, s)
          else requestPixmap_themed ld fp spec client elementKey cacheKey
                 (s\<lparr>m_clients := AList.update c cacheKey (m_clients s)\<rparr>)
      | None \<Rightarrow> requestPixmap_themed ld fp spec client elementKey cacheKey s)"

definition requestPixmap ::
  "loader \<Rightarrow> fetcher \<Rightarrow> ClientSpec \<Rightarrow> client option \<Rightarrow> engine
     \<Rightarrow> error + (QPixmap option \<times> engine)" where
  "requestPixmap ld fp spec client s =
     (if spec_width spec \<le> 0 \<or> spec_height spec \<le> 0
      then Inr (Some NullPixmap, propagateResult NullPixmap client s)
      else
        (case spriteFrameKey ld fp (spec_spriteKey spec) (spec_frame spec) True s of
           Inl e \<Rightarrow> Inl e
         | Inr (elementKey, s1) \<Rightarrow>
             requestPixmap_keyed ld fp spec client elementKey
               (makeCacheKey s1 spec elementKey) s1))"

definition spritePixmap ::
  "loader \<Rightarrow> fetcher \<Rightarrow> string \<Rightarrow> int \<times> int \<Rightarrow> int \<Rightarrow> (QRgb \<times> QRgb) list \<Rightarrow> engine
     \<Rightarrow> error + (QPixmap \<times> engine)" where
  "spritePixmap ld fp key sz frame colors s =
     (case requestPixmap ld fp
             \<lparr>spec_spriteKey = key, spec_frame = frame, spec_width = fst sz,
              spec_height = snd sz, spec_customColors = colors\<rparr> None s of
        Inl e \<Rightarrow> Inl e
      | Inr (written, s1) \<Rightarrow>
          Inr ((case written of None \<Rightarrow> NullPixmap | Some p \<Rightarrow> p), s1))"

subsection \<open>The clients and the engines the program reaches\<close>

text \<open>
  Modelled from the spec: \<open>KGameRendererClientPrivate::fetchPixmap\<close>, which
  \<open>setTheme\<close> calls and whose code is not in the source. The spec says that for every
  registered client "a fresh async request is issued for their last-known spec". \<open>specs\<close>
  gives the spec of each client. The request enters \<open>setTheme\<close> again while no theme is
  loaded, so the recursion has a depth; when the depth is used up the stack is.
\<close>

primrec fetchPixmap :: "(client \<Rightarrow> ClientSpec) \<Rightarrow> nat \<Rightarrow> fetcher" where
  "fetchPixmap specs 0 = (\<lambda>c s. Inl StackOverflow)"
| "fetchPixmap specs (Suc depth) =
     (\<lambda>c s. case requestPixmap KGameRendererPrivate_setTheme (fetchPixmap specs depth)
                    (specs c) (Some c) s of
              Inl e \<Rightarrow> Inl e
            | Inr (written, s') \<Rightarrow> Inr s')"



text \<open>
  Modelled from the spec: the constructor and the destructor of \<open>KGameRendererClient\<close>,
  whose code is not in the source. The registry is "a mapping from a live client handle to
  the cache key of its most recently delivered (or pending) pixmap", so a new client is
  in it with no key yet, and "on destruction, the client must deregister itself from the
  orchestration component's client map".
\<close>

definition registerClient :: "client \<Rightarrow> engine \<Rightarrow> engine" where
  "registerClient c s = s\<lparr>m_clients := AList.update c [] (m_clients s)\<rparr>"

definition deregisterClient :: "client \<Rightarrow> engine \<Rightarrow> engine" where
  "deregisterClient c s = s\<lparr>m_clients := AList.delete c (m_clients s)\<rparr>"

text \<open>
  The engines the program reaches: the constructor, then the setters, \<open>setTheme\<close> and
  the queries of the facade, clients that come, fetch their pixmap and go, and the
  workers of the thread pool running a started job. The private loader is the one of the
  source. The specs of the clients and the depth of the stack may differ from one call to
  the next. A call that does not return leaves no engine behind.
\<close>

inductive reachable :: "engine \<Rightarrow> bool" where
  constructed: "reachable (KGameRendererPrivate_new defaultTheme fs)"
| after_setFrameBaseIndex: "reachable s \<Longrightarrow> reachable (setFrameBaseIndex i s)"
| after_setFrameSuffix: "reachable s \<Longrightarrow> reachable (setFrameSuffix suffix s)"
| after_setStrategyEnabled:
    "reachable s \<Longrightarrow>
     setStrategyEnabled KGameRendererPrivate_setTheme (fetchPixmap specs depth)
       strategy enabled s = Inr s'
     \<Longrightarrow> reachable s'"
| after_setTheme:
    "reachable s \<Longrightarrow>
     setTheme KGameRendererPrivate_setTheme (fetchPixmap specs depth) theme s = Inr s'
     \<Longrightarrow> reachable s'"
| after_frameCount:
    "reachable s \<Longrightarrow>
     frameCount KGameRendererPrivate_setTheme (fetchPixmap specs depth) key s = Inr (n, s')
     \<Longrightarrow> reachable s'"
| after_boundsOnSprite:
    "reachable s \<Longrightarrow>
     boundsOnSprite KGameRendererPrivate_setTheme (fetchPixmap specs depth) key frame s
       = Inr (r, s')
     \<Longrightarrow> reachable s'"
| after_spritePixmap:
    "reachable s \<Longrightarrow>
     spritePixmap KGameRendererPrivate_setTheme (fetchPixmap specs depth) key sz frame colors s
       = Inr (pixmap, s')
     \<Longrightarrow> reachable s'"
| after_registerClient: "reachable s \<Longrightarrow> reachable (registerClient c s)"
| after_deregisterClient: "reachable s \<Longrightarrow> reachable (deregisterClient c s)"
| after_fetchPixmap:
    "reachable s \<Longrightarrow> fetchPixmap specs depth c s = Inr s' \<Longrightarrow> reachable s'"
| after_runQueued:
    "reachable s \<Longrightarrow> job \<in> set (m_workerPool s) \<Longrightarrow> runQueued t job s = Inr s'
     \<Longrightarrow> reachable s'"

subsection \<open>Auxiliary definitions for the statements\<close>

text \<open>The events an operation added to the trace.\<close>

definition newEvents :: "engine \<Rightarrow> engine \<Rightarrow> event list" where
  "newEvents s s' = drop (length (trace s)) (trace s')"

text \<open>What the persistent cache holds under a key, and the parts of a result.\<close>

definition storeEntry :: "string \<Rightarrow> engine \<Rightarrow> QByteArray option" where
  "storeEntry k s = (case m_imageCache s of None \<Rightarrow> None | Some ic \<Rightarrow> entries ic k)"

definition storeImage :: "string \<Rightarrow> engine \<Rightarrow> QImage option" where
  "storeImage k s = (case m_imageCache s of None \<Rightarrow> None | Some ic \<Rightarrow> images ic k)"

definition answer :: "error + ('a \<times> engine) \<Rightarrow> error + 'a" where
  "answer r = map_sum id fst r"

definition after :: "(engine \<Rightarrow> 'b) \<Rightarrow> error + ('a \<times> engine) \<Rightarrow> error + 'b" where
  "after f r = map_sum id (f \<circ> snd) r"

definition calls :: "engine \<Rightarrow> error + ('a \<times> engine) \<Rightarrow> error + event list" where
  "calls s r = after (newEvents s) r"

definition boundsCached :: "string \<Rightarrow> engine \<Rightarrow> QRectF option" where
  "boundsCached k s = m_boundsCache s k"

text \<open>
  The fields a query for a frame count or for bounds leaves alone: the registry of the
  clients, the theme, the pending requests, the started jobs, the pixmaps and the
  configuration.
\<close>

definition keepsRequests :: "engine \<Rightarrow> engine \<Rightarrow> bool" where
  "keepsRequests s s' =
     (m_clients s' = m_clients s \<and> m_currentTheme s' = m_currentTheme s
      \<and> m_pendingRequests s' = m_pendingRequests s \<and> m_workerPool s' = m_workerPool s
      \<and> m_pixmapCache s' = m_pixmapCache s \<and> m_strategies s' = m_strategies s
      \<and> m_sizePrefix s' = m_sizePrefix s \<and> m_frameBaseIndex s' = m_frameBaseIndex s
      \<and> m_frameSuffix s' = m_frameSuffix s)"

text \<open>
  What a request with cache key \<open>k\<close> does to the thread pool between the engines
  \<open>s\<close> and \<open>s'\<close>: nothing when the key was pending already; one job for the key,
  started last, when the key is pending now; and no job otherwise.
\<close>

definition startsJobFor :: "string \<Rightarrow> engine \<Rightarrow> engine \<Rightarrow> bool" where
  "startsJobFor k s s' =
     (if k \<in> set (m_pendingRequests s)
      then m_workerPool s' = m_workerPool s \<and> m_pendingRequests s' = m_pendingRequests s
      else if k \<in> set (m_pendingRequests s')
      then m_workerPool s' =
             m_workerPool s @ [\<lparr>job_cacheKey = k, job_elementKey = job_elementKey (last (m_workerPool s')),
                                  job_spec = job_spec (last (m_workerPool s')), job_result = NullImage\<rparr>]
      else m_workerPool s' = m_workerPool s)"

text \<open>The text the loop over the colours appends to a cache key.\<close>

fun colorText :: "(QRgb \<times> QRgb) list \<Rightarrow> string" where
  "colorText [] = []"
| "colorText ((k, v) # cs) = ''-'' @ digits k @ ''-'' @ digits v @ colorText cs"

text \<open>A collaborator for concrete runs: a fetcher that requests nothing.\<close>

definition noFetch :: fetcher where
  "noFetch c s = Inr s"

text \<open>
  A theme file with an animated sprite of four frames numbered from 0, one of four
  frames numbered from 5, and a sprite without frames.
\<close>

definition demoDoc :: svgdoc where
  "demoDoc =
     [(''ship_0'', QRectF 0 0 8 8), (''ship_1'', QRectF 8 0 8 8),
      (''ship_2'', QRectF 16 0 8 8), (''ship_3'', QRectF 24 0 8 8),
      (''boat_5'', QRectF 0 8 8 8), (''boat_6'', QRectF 8 8 8 8),
      (''boat_7'', QRectF 16 8 8 8), (''boat_8'', QRectF 24 8 8 8),
      (''player'', QRectF 0 16 4 4)]"

definition demoFiles :: files where
  "demoFiles path = (if path = ''t.svg'' then Some demoDoc else None)"

definition emptyCache :: KImageCache where
  "emptyCache = \<lparr>entries = Map.empty, images = Map.empty\<rparr>"

text \<open>
  \<open>fresh\<close> is the engine after its constructor. \<open>demo\<close> is an engine with the theme
  \<open>t\<close> loaded: the pool is bound to the theme file and the persistent cache is open.
  \<open>demoIdle\<close> has an idle renderer in the pool in addition.
\<close>

definition fresh :: engine where
  "fresh = KGameRendererPrivate_new ''t'' demoFiles"

definition demo :: engine where
  "demo = fresh\<lparr>m_currentTheme := ''t'',
                 m_rendererPool := setPath ''t.svg'' None RendererPool_new,
                 m_imageCache := Some emptyCache\<rparr>"

definition demoIdle :: engine where
  "demoIdle = demo\<lparr>m_rendererPool :=
                      setPath ''t.svg'' (Some (QSvgRenderer 1 (Some demoDoc))) RendererPool_new\<rparr>"

text \<open>\<open>demoIdle\<close> with the disk cache switched off.\<close>

definition demoIdleNoDisk :: engine where
  "demoIdleNoDisk = demoIdle\<lparr>m_strategies := {UseRenderingThreads}\<rparr>"

text \<open>
  A client scenario on \<open>demo\<close>. Client 7 asks for frame 1 of \<open>ship\<close> at 10 by 10,
  which starts a job. In \<open>requested20\<close> the same client has asked again at 20 by 20; in
  \<open>requestedBoth\<close> client 8 has asked for the 10 by 10 pixmap as well. \<open>shipJob10\<close> is
  the first job with its image.
\<close>

definition engineOf :: "error + ('a \<times> engine) \<Rightarrow> engine" where
  "engineOf r = (case r of Inr (x, s) \<Rightarrow> s | Inl e \<Rightarrow> fresh)"

definition finished :: "error + engine \<Rightarrow> engine" where
  "finished r = (case r of Inr s \<Rightarrow> s | Inl e \<Rightarrow> fresh)"

definition shipSpec :: "int \<Rightarrow> ClientSpec" where
  "shipSpec w =
     \<lparr>spec_spriteKey = ''ship'', spec_frame = 1, spec_width = w, spec_height = w,
      spec_customColors = []\<rparr>"

definition requested10 :: engine where
  "requested10 =
     engineOf (requestPixmap KGameRendererPrivate_setTheme noFetch (shipSpec 10) (Some 7) demo)"

definition requested20 :: engine where
  "requested20 =
     engineOf (requestPixmap KGameRendererPrivate_setTheme noFetch (shipSpec 20) (Some 7)
                 requested10)"

definition requestedBoth :: engine where
  "requestedBoth =
     engineOf (requestPixmap KGameRendererPrivate_setTheme noFetch (shipSpec 10) (Some 8)
                 requested10)"

definition shipJob10 :: Job where
  "shipJob10 =
     \<lparr>job_cacheKey = ''10-10-ship_1'', job_elementKey = ''ship_1'', job_spec = shipSpec 10,
      job_result = QImage 10 10 (Some ''ship_1'') []\<rparr>"

section \<open>Properties\<close>

subsection \<open>Numbers and place markers\<close>

lemma digitValue_digitChar: "d < 10 \<Longrightarrow> digitValue (digitChar d) = Some d"
  by (simp add: digitValue_def digitChar_def)

lemma digitsValue_append:
  "digitsValue acc (xs @ ys) =
     (case digitsValue acc xs of None \<Rightarrow> None | Some a \<Rightarrow> digitsValue a ys)"
  by (induction xs arbitrary: acc) (auto split: option.splits)

text \<open>Reading the digits of a number gives the number back.\<close>

lemma digitsValue_digits: "digitsValue 0 (digits n) = Some n"
proof (induction n rule: digits.induct)
  case (1 n)
  show ?case
  proof (cases "n < 10")
    case True
    then show ?thesis
      by (subst digits.simps) (simp add: digitValue_digitChar)
  next
    case False
    with 1 have "digitsValue 0 (digits (n div 10)) = Some (n div 10)" by simp
    with False show ?thesis
      by (subst digits.simps) (simp add: digitsValue_append digitValue_digitChar)
  qed
qed

lemma digits_inj: "digits m = digits n \<Longrightarrow> m = n"
  by (metis digitsValue_digits option.inject)

lemma digitsValue_Some_digit:
  "digitsValue acc xs = Some v \<Longrightarrow> c \<in> set xs \<Longrightarrow> digitValue c \<noteq> None"
  by (induction xs arbitrary: acc) (auto split: option.splits)

lemma digits_chars: "c \<in> set (digits n) \<Longrightarrow> digitValue c \<noteq> None"
  using digitsValue_Some_digit [OF digitsValue_digits] by blast

lemma digits_no_dash [simp]: "CHR ''-'' \<notin> set (digits n)"
  using digits_chars [of "CHR ''-''" n] by (auto simp: digitValue_def)

lemma digits_no_percent [simp]: "CHR ''%'' \<notin> set (digits n)"
  using digits_chars [of "CHR ''%''" n] by (auto simp: digitValue_def)

lemma digits_nonempty [simp]: "digits n \<noteq> []"
  by (subst digits.simps) simp

lemma number_no_percent [simp]: "CHR ''%'' \<notin> set (number i)"
  by (simp add: number_def)

text \<open>Text without a percent sign is scanned as literals.\<close>

lemma tokens_literal: "CHR ''%'' \<notin> set a \<Longrightarrow> tokens (a @ r) = map Lit a @ tokens r"
proof (induction a)
  case Nil
  then show ?case by simp
next
  case (Cons c a)
  then show ?case by (cases "a @ r") auto
qed

lemma markers_literal [simp]: "markers (map Lit a @ ts) = markers ts"
  by (induction a) auto

lemma replace_literal [simp]: "replace lo x (map Lit a @ ts) = a @ replace lo x ts"
  by (induction a) auto

text \<open>A string that contains the text of the first marker has a marker.\<close>

lemma contains_marker: "contains s ''%1'' \<Longrightarrow> markers (tokens s) \<noteq> []"
proof (induction s rule: tokens.induct)
  case 1
  then show ?case by simp
next
  case (2 c)
  then show ?case by simp
next
  case (3 c d ds)
  show ?case
  proof (cases "c = CHR ''%''")
    case False
    with 3 show ?thesis by auto
  next
    case pc: True
    show ?thesis
    proof (cases "d = CHR ''L''")
      case True
      with pc 3 show ?thesis
        by (auto simp: digitValue_def split: list.splits option.splits)
    next
      case False
      with pc 3 show ?thesis
        by (auto simp: digitValue_def split: list.splits option.splits)
    qed
  qed
qed

subsection \<open>The frame suffix\<close>

text \<open>
  C8, as the code has it: \<open>setFrameSuffix\<close> keeps the suffix it is given when the text
  \<open>%1\<close> occurs in it at least once, and stores \<open>_%1\<close> otherwise. After the call the
  stored suffix contains \<open>%1\<close>, so it has at least one place marker; it may have more
  than one.
\<close>

theorem setFrameSuffix_keeps_a_placeholder:
  "m_frameSuffix (setFrameSuffix suffix s) = (if contains suffix ''%1'' then suffix else ''_%1'')
   \<and> contains (m_frameSuffix (setFrameSuffix suffix s)) ''%1''
   \<and> markers (tokens (m_frameSuffix (setFrameSuffix suffix s))) \<noteq> []"
  by (simp add: setFrameSuffix_def contains_marker digitValue_def)

text \<open>
  C8 as stated fails: the suffix \<open>%1%2\<close> is accepted on a new engine and has two place
  markers, not exactly one.
\<close>

theorem setFrameSuffix_two_placeholders:
  "m_frameSuffix (setFrameSuffix ''%1%2'' fresh) = ''%1%2''
   \<and> length (markers (tokens (m_frameSuffix (setFrameSuffix ''%1%2'' fresh)))) \<noteq> 1"
  by (simp add: setFrameSuffix_def fresh_def KGameRendererPrivate_new_def digitValue_def)

subsection \<open>The cache key\<close>

lemma first_separator:
  "x \<notin> set a \<Longrightarrow> x \<notin> set b \<Longrightarrow> a @ x # r = b @ x # r' \<Longrightarrow> a = b \<and> r = r'"
  by (induction a arbitrary: b) (case_tac b; auto)+

lemma arg_sizePrefix:
  "arg (arg ''%1-%2-'' w) h = number w @ ''-'' @ number h @ ''-''"
proof -
  have 1: "arg ''%1-%2-'' w = number w @ ''-%2-''"
    by (simp add: arg_def arg_text_def digitValue_def)
  show ?thesis
    by (simp add: 1) (simp add: arg_def arg_text_def tokens_literal digitValue_def)
qed

lemma arg_colorSuffix:
  "arg (arg ''-%1-%2'' k) v = ''-'' @ number k @ ''-'' @ number v"
proof -
  have 1: "arg ''-%1-%2'' k = ''-'' @ number k @ ''-%2''"
    by (simp add: arg_def arg_text_def digitValue_def)
  have 2: "tokens (''-'' @ number k @ ''-%2'') = map Lit (''-'' @ number k) @ tokens ''-%2''"
    using tokens_literal [of "''-'' @ number k" "''-%2''"] by simp
  show ?thesis
    unfolding 1 by (simp only: arg_def arg_text_def 2) (simp add: digitValue_def)
qed

lemma appendColors_text: "appendColors ck cs = ck @ colorText cs"
  by (induction ck cs rule: appendColors.induct) (simp_all add: arg_colorSuffix number_def)

lemma colorText_head: "colorText cs = [] \<or> (\<exists>r. colorText cs = CHR ''-'' # r)"
  by (cases cs) auto

lemma split_dash:
  "CHR ''-'' \<notin> set a \<Longrightarrow> CHR ''-'' \<notin> set b \<Longrightarrow> a @ colorText cs = b @ colorText ds
   \<Longrightarrow> a = b \<and> colorText cs = colorText ds"
  using colorText_head [of cs] colorText_head [of ds]
  by (auto simp: append_eq_append_conv2 append_eq_Cons_conv Cons_eq_append_conv)

lemma colorText_inj: "colorText cs = colorText ds \<Longrightarrow> cs = ds"
proof (induction cs arbitrary: ds)
  case Nil
  then show ?case by (cases ds) auto
next
  case (Cons p cs)
  obtain k v where p: "p = (k, v)" by (cases p)
  show ?case
  proof (cases ds)
    case Nil
    with Cons.prems p show ?thesis by simp
  next
    case (Cons q ds')
    obtain k' v' where q: "q = (k', v')" by (cases q)
    from Cons.prems p q Cons
    have e: "digits k @ CHR ''-'' # (digits v @ colorText cs)
             = digits k' @ CHR ''-'' # (digits v' @ colorText ds')" by simp
    then have "digits k = digits k' \<and> digits v @ colorText cs = digits v' @ colorText ds'"
      by (intro first_separator) simp_all
    then have "digits k = digits k'" and r: "digits v @ colorText cs = digits v' @ colorText ds'"
      by simp_all
    moreover from r have "digits v = digits v' \<and> colorText cs = colorText ds'"
      by (intro split_dash) simp_all
    ultimately show ?thesis
      using Cons.IH [of ds'] p q Cons by (auto dest: digits_inj)
  qed
qed

lemma number_separated:
  assumes "number i @ CHR ''-'' # r = number j @ CHR ''-'' # r'"
  shows "i = j \<and> r = r'"
proof -
  have hd_digits: "\<And>n xs. hd (digits n @ xs) \<noteq> CHR ''-''"
  proof -
    fix n xs
    have "hd (digits n @ xs) = hd (digits n)" by simp
    moreover have "hd (digits n) \<in> set (digits n)" by simp
    ultimately show "hd (digits n @ xs) \<noteq> CHR ''-''"
      by (metis digits_no_dash)
  qed
  consider (nn) "i < 0" "j < 0" | (np) "i < 0" "0 \<le> j" | (pn) "0 \<le> i" "j < 0" | (pp) "0 \<le> i" "0 \<le> j"
    by linarith
  then show ?thesis
  proof cases
    case nn
    with assms have "digits (nat (- i)) @ CHR ''-'' # r = digits (nat (- j)) @ CHR ''-'' # r'"
      by (simp add: number_def)
    then have "digits (nat (- i)) = digits (nat (- j)) \<and> r = r'"
      by (intro first_separator) simp_all
    with nn show ?thesis by (auto dest: digits_inj)
  next
    case np
    with assms have "CHR ''-'' # digits (nat (- i)) @ CHR ''-'' # r = digits (nat j) @ CHR ''-'' # r'"
      by (simp add: number_def)
    then have "hd (digits (nat j) @ CHR ''-'' # r') = CHR ''-''"
      by (metis list.sel(1))
    with hd_digits show ?thesis by blast
  next
    case pn
    with assms have "digits (nat i) @ CHR ''-'' # r = CHR ''-'' # digits (nat (- j)) @ CHR ''-'' # r'"
      by (simp add: number_def)
    then have "hd (digits (nat i) @ CHR ''-'' # r) = CHR ''-''"
      by (metis list.sel(1))
    with hd_digits show ?thesis by blast
  next
    case pp
    with assms have "digits (nat i) @ CHR ''-'' # r = digits (nat j) @ CHR ''-'' # r'"
      by (simp add: number_def)
    then have "digits (nat i) = digits (nat j) \<and> r = r'"
      by (intro first_separator) simp_all
    with pp show ?thesis by (auto dest: digits_inj)
  qed
qed

lemma makeCacheKey_text:
  "m_sizePrefix s = ''%1-%2-'' \<Longrightarrow>
   makeCacheKey s spec e =
     number (spec_width spec) @ ''-'' @ number (spec_height spec) @ ''-'' @ e
       @ colorText (spec_customColors spec)"
  by (simp add: makeCacheKey_def appendColors_text arg_sizePrefix)

text \<open>
  C6, as the code has it: with the size prefix of the constructor, the cache key is the
  width, the height, the element key and the colour pairs in the order the hash iterates
  them, joined by dashes. For element keys without a dash, two requests have the same
  cache key exactly when they agree on width, height, element key and the list of colour
  pairs.
\<close>

theorem makeCacheKey_injective:
  assumes "m_sizePrefix s = ''%1-%2-''"
    and "CHR ''-'' \<notin> set ea" and "CHR ''-'' \<notin> set eb"
  shows "makeCacheKey s a ea = makeCacheKey s b eb \<longleftrightarrow>
           spec_width a = spec_width b \<and> spec_height a = spec_height b \<and> ea = eb
           \<and> spec_customColors a = spec_customColors b"
proof
  assume eq: "makeCacheKey s a ea = makeCacheKey s b eb"
  from eq assms(1)
  have "number (spec_width a) @ CHR ''-'' # (number (spec_height a) @ CHR ''-'' # (ea @ colorText (spec_customColors a)))
      = number (spec_width b) @ CHR ''-'' # (number (spec_height b) @ CHR ''-'' # (eb @ colorText (spec_customColors b)))"
    by (simp add: makeCacheKey_text)
  then have w: "spec_width a = spec_width b"
    and 1: "number (spec_height a) @ CHR ''-'' # (ea @ colorText (spec_customColors a))
      = number (spec_height b) @ CHR ''-'' # (eb @ colorText (spec_customColors b))"
    by (auto dest: number_separated)
  from 1 have h: "spec_height a = spec_height b"
    and 2: "ea @ colorText (spec_customColors a) = eb @ colorText (spec_customColors b)"
    by (auto dest: number_separated)
  from 2 assms(2,3) have "ea = eb \<and> colorText (spec_customColors a) = colorText (spec_customColors b)"
    by (intro split_dash)
  with w h show "spec_width a = spec_width b \<and> spec_height a = spec_height b \<and> ea = eb
           \<and> spec_customColors a = spec_customColors b"
    by (auto dest: colorText_inj)
next
  assume "spec_width a = spec_width b \<and> spec_height a = spec_height b \<and> ea = eb
           \<and> spec_customColors a = spec_customColors b"
  then show "makeCacheKey s a ea = makeCacheKey s b eb"
    by (simp add: makeCacheKey_def)
qed

text \<open>Witness for C6: two colour lists that differ give different keys.\<close>

theorem makeCacheKey_injective_witness:
  "makeCacheKey fresh \<lparr>spec_spriteKey = ''ship'', spec_frame = 1, spec_width = 64, spec_height = 48, spec_customColors = [(1, 2)]\<rparr> ''ship_1''
   \<noteq> makeCacheKey fresh \<lparr>spec_spriteKey = ''ship'', spec_frame = 1, spec_width = 64, spec_height = 48, spec_customColors = [(2, 1)]\<rparr> ''ship_1''"
  using makeCacheKey_injective [of fresh "''ship_1''" "''ship_1''"
      "\<lparr>spec_spriteKey = ''ship'', spec_frame = 1, spec_width = 64, spec_height = 48, spec_customColors = [(1, 2)]\<rparr>"
      "\<lparr>spec_spriteKey = ''ship'', spec_frame = 1, spec_width = 64, spec_height = 48, spec_customColors = [(2, 1)]\<rparr>"]
  by (simp add: fresh_def KGameRendererPrivate_new_def)

text \<open>
  C6 as stated fails: the sprite \<open>a-1-2\<close> without colours and the sprite \<open>a\<close> with
  the colour pair (1, 2) are different inputs with the same cache key.
\<close>

theorem makeCacheKey_collision:
  "makeCacheKey fresh
     \<lparr>spec_spriteKey = ''a-1-2'', spec_frame = - 1, spec_width = 64, spec_height = 64,
      spec_customColors = []\<rparr> ''a-1-2''
   = makeCacheKey fresh
       \<lparr>spec_spriteKey = ''a'', spec_frame = - 1, spec_width = 64, spec_height = 64,
        spec_customColors = [(1, 2)]\<rparr> ''a''
   \<and> ''a-1-2'' \<noteq> ''a''"
  by (simp add: makeCacheKey_text fresh_def KGameRendererPrivate_new_def number_def) code_simp

subsection \<open>What the queries leave alone\<close>

lemma newEvents_append: "trace s' = trace s @ evs \<Longrightarrow> newEvents s s' = evs"
  by (simp add: newEvents_def)

lemma newEvents_self [simp]: "newEvents s s = []"
  by (simp add: newEvents_def)

lemma ensureTheme_active [simp]: "m_currentTheme s \<noteq> [] \<Longrightarrow> ensureTheme ld fp s = Inr s"
  by (simp add: ensureTheme_def)

lemma keepsRequests_refl [simp]: "keepsRequests s s"
  by (simp add: keepsRequests_def)

lemma keepsRequests_trans: "keepsRequests s s1 \<Longrightarrow> keepsRequests s1 s2 \<Longrightarrow> keepsRequests s s2"
  by (simp add: keepsRequests_def)

lemma imageCache_find_Inr:
  "imageCache_find k s = Inr (b, s1) \<Longrightarrow> s1 = emit (Find k) s \<and> b = storeEntry k s"
  by (auto simp: imageCache_find_def storeEntry_def split: option.splits)

lemma imageCache_insert_Inr:
  "imageCache_insert k b s = Inr s1 \<Longrightarrow>
   trace s1 = trace s @ [Insert k b] \<and> storeEntry k s1 = Some b \<and> keepsRequests s s1
   \<and> m_boundsCache s1 = m_boundsCache s \<and> m_frameCountCache s1 = m_frameCountCache s
   \<and> m_rendererPool s1 = m_rendererPool s"
  by (auto simp: imageCache_insert_def storeEntry_def emit_def keepsRequests_def split: option.splits)

lemma keepsRequests_emit [simp]: "keepsRequests s (emit e s)"
  by (simp add: keepsRequests_def emit_def)

lemma keepsRequests_pool [simp]: "keepsRequests s (s\<lparr>m_rendererPool := p\<rparr>)"
  by (simp add: keepsRequests_def)

lemma keepsRequests_frameCountCache [simp]:
  "keepsRequests s (s1\<lparr>m_frameCountCache := c\<rparr>) = keepsRequests s s1"
  by (simp add: keepsRequests_def)

lemma keepsRequests_boundsCache [simp]:
  "keepsRequests s (s1\<lparr>m_boundsCache := c\<rparr>) = keepsRequests s s1"
  by (simp add: keepsRequests_def)

lemma frameCount_shared_keeps:
  "frameCount_shared key s = Inr (found, s1) \<Longrightarrow> keepsRequests s s1"
  by (auto simp: frameCount_shared_def Let_def split: if_splits sum.splits
      dest!: imageCache_find_Inr)

lemma frameCount_svg_keeps:
  assumes "frameCount_svg key s = Inr (n, s1)"
  shows "keepsRequests s s1"
proof -
  obtain r pool where a: "allocRenderer (svgFiles s) controlThread (m_rendererPool s) = (r, pool)"
    by (cases "allocRenderer (svgFiles s) controlThread (m_rendererPool s)")
  with assms obtain renderer where r: "r = Some renderer"
    by (cases r) (auto simp: frameCount_svg_def)
  from assms a r obtain count where c: "countFrames renderer key s = Inr count"
    by (cases "countFrames renderer key s") (auto simp: frameCount_svg_def)
  let ?s1 = "s\<lparr>m_rendererPool := freeRenderer renderer pool\<rparr>"
  show ?thesis
  proof (cases "UseDiskCache \<in> m_strategies s")
    case False
    with assms a r c have "s1 = ?s1" by (simp add: frameCount_svg_def)
    then show ?thesis by simp
  next
    case True
    with assms a r c have "imageCache_insert (m_frameCountPrefix s @ key) (Text (number count)) ?s1 = Inr s1"
      by (simp add: frameCount_svg_def split: sum.splits)
    from imageCache_insert_Inr [OF this] have "keepsRequests ?s1 s1" by simp
    then show ?thesis by (simp add: keepsRequests_def)
  qed
qed

lemma frameCount_keeps:
  assumes "m_currentTheme s \<noteq> []" and "frameCount ld fp key s = Inr (n, s1)"
  shows "keepsRequests s s1"
proof (cases "m_frameCountCache s key")
  case (Some a)
  with assms show ?thesis by (simp add: frameCount_def)
next
  case None
  show ?thesis
  proof (cases "frameCount_shared key s")
    case (Inl e)
    with assms None show ?thesis by (simp add: frameCount_def)
  next
    case (Inr p)
    obtain found s2 where p: "p = (found, s2)" by (cases p)
    note k2 = frameCount_shared_keeps [OF Inr [unfolded p]]
    show ?thesis
    proof (cases found)
      case (Some count)
      with assms None Inr p k2 show ?thesis by (auto simp: frameCount_def)
    next
      case nf: None
      show ?thesis
      proof (cases "frameCount_svg key s2")
        case (Inl e)
        with assms None Inr p nf show ?thesis by (simp add: frameCount_def)
      next
        case svg: (Inr q)
        obtain count s3 where q: "q = (count, s3)" by (cases q)
        note k3 = frameCount_svg_keeps [OF svg [unfolded q]]
        from assms None Inr p nf svg q have "s1 = s3\<lparr>m_frameCountCache := (m_frameCountCache s3)(key \<mapsto> count)\<rparr>"
          by (auto simp: frameCount_def)
        with keepsRequests_trans [OF k2 k3] show ?thesis by simp
      qed
    qed
  qed
qed

lemma spriteFrameKey_keeps:
  assumes "m_currentTheme s \<noteq> []" and "spriteFrameKey ld fp key f nrm s = Inr (ek, s1)"
  shows "keepsRequests s s1"
proof (cases "0 \<le> f \<and> nrm")
  case False
  with assms show ?thesis by (auto simp: spriteFrameKey_def split: if_splits)
next
  case True
  show ?thesis
  proof (cases "frameCount ld fp key s")
    case (Inl e)
    with assms True show ?thesis by (simp add: spriteFrameKey_def)
  next
    case (Inr p)
    obtain n s2 where p: "p = (n, s2)" by (cases p)
    from assms True Inr p have "s1 = s2"
      by (auto simp: spriteFrameKey_def split: if_splits sum.splits)
    with frameCount_keeps [OF assms(1) Inr [unfolded p]] show ?thesis by simp
  qed
qed

text \<open>\<open>frameKey\<close> is \<open>spriteFrameKey\<close> without normalization.\<close>

lemma spriteFrameKey_plain:
  "spriteFrameKey ld fp key frame False s = Inr (frameKey s key frame, s)"
  by (simp add: spriteFrameKey_def frameKey_def)

text \<open>The count stored in the persistent cache is read back as it was written.\<close>

lemma toInt_number:
  assumes "INT_MIN \<le> i" and "i \<le> INT_MAX"
  shows "toInt (Text (number i)) = i"
proof -
  have "parseInt (number i) = Some i"
  proof (cases "i < 0")
    case True
    then show ?thesis
      by (simp add: number_def parseInt_def digitsValue_digits)
  next
    case False
    obtain c cs where d: "digits (nat i) = c # cs"
      by (cases "digits (nat i)") simp_all
    have "c \<in> set (digits (nat i))" by (simp add: d)
    then have "c \<noteq> CHR ''-''" by (metis digits_no_dash)
    moreover have "digitsValue 0 (c # cs) = Some (nat i)"
      using digitsValue_digits [of "nat i"] by (simp only: d)
    ultimately show ?thesis
      using False by (simp add: number_def parseInt_def d del: digitsValue.simps)
  qed
  with assms show ?thesis by (simp add: toInt_def)
qed

subsection \<open>Running the model\<close>

text \<open>The definitions a concrete run unfolds.\<close>

lemmas run_defs =
  frameCount_def frameCount_shared_def frameCount_svg_def countFrames_def ensureTheme_def
  spriteFrameKey_def boundsOnSprite_def boundsOnElementKey_def
  boundsOnSprite_shared_def boundsOnSprite_svg_def
  imageCache_find_def imageCache_insert_def imageCache_findPixmap_def
  imageCache_insertImage_def
  allocRenderer_def freeRenderer_def hasAvailableRenderers_def setPath_def freshAddress_def
  RendererPool_new_def KGameRendererPrivate_new_def
  frameKey_def emit_def checked_def INT_MAX_def INT_MIN_def controlThread_def
  cpp_rem_def setFrameBaseIndex_def
  demo_def demoIdle_def fresh_def demoDoc_def demoFiles_def emptyCache_def
  noFetch_def KGameRendererPrivate_setTheme_def
  answer_def calls_def after_def newEvents_def storeEntry_def storeImage_def boundsCached_def
  demoIdleNoDisk_def

lemma arg_frameSuffix: "arg ''_%1'' i = CHR ''_'' # number i"
  by (simp add: arg_def arg_text_def digitValue_def)

lemma number_small:
  "number 0 = ''0''" "number 1 = ''1''" "number 2 = ''2''" "number 3 = ''3''"
  "number 4 = ''4''" "number 5 = ''5''" "number 6 = ''6''" "number 7 = ''7''"
  "number 8 = ''8''" "number 9 = ''9''" "number (- 1) = ''-1''"
  by code_simp+

subsection \<open>Strategies\<close>

text \<open>
  C10: \<open>setStrategyEnabled\<close> with \<open>UseRenderingThreads\<close> changes the set of
  strategies and nothing else: theme, caches, clients and trace are those of before, and
  neither the loader nor a fetch is called. A call that leaves a flag as it was returns the
  engine unchanged. Only a call that changes \<open>UseDiskCache\<close> goes through \<open>setTheme\<close>,
  with the current theme cleared first.
\<close>

theorem setStrategyEnabled_reload_only_on_change:
  "setStrategyEnabled ld fp UseRenderingThreads enabled s =
     Inr (s\<lparr>m_strategies := (if enabled then insert UseRenderingThreads (m_strategies s)
                                else m_strategies s - {UseRenderingThreads})\<rparr>)
   \<and> ((strategy \<in> m_strategies s) = enabled \<longrightarrow> setStrategyEnabled ld fp strategy enabled s = Inr s)
   \<and> ((UseDiskCache \<in> m_strategies s) \<noteq> enabled \<longrightarrow>
        setStrategyEnabled ld fp UseDiskCache enabled s =
          setTheme ld fp (m_currentTheme s)
            (s\<lparr>m_strategies := (if enabled then insert UseDiskCache (m_strategies s)
                                  else m_strategies s - {UseDiskCache}),
               m_currentTheme := []\<rparr>))"
  by (auto simp: setStrategyEnabled_def Let_def insert_absorb)

text \<open>
  Witness for C10 on the engine \<open>demo\<close>: switching the rendering threads off, switching
  the disk cache on when it is on, and switching the disk cache off.
\<close>

theorem setStrategyEnabled_reload_only_on_change_witness:
  "setStrategyEnabled KGameRendererPrivate_setTheme noFetch UseRenderingThreads False demo =
     Inr (demo\<lparr>m_strategies := {UseDiskCache}\<rparr>)
   \<and> setStrategyEnabled KGameRendererPrivate_setTheme noFetch UseDiskCache True demo = Inr demo
   \<and> setStrategyEnabled KGameRendererPrivate_setTheme noFetch UseDiskCache False demo =
       setTheme KGameRendererPrivate_setTheme noFetch ''t''
         (demo\<lparr>m_strategies := {UseRenderingThreads}, m_currentTheme := []\<rparr>)"
proof -
  have st: "m_strategies demo = {UseDiskCache, UseRenderingThreads}" and th: "m_currentTheme demo = ''t''"
    by (simp_all add: demo_def fresh_def KGameRendererPrivate_new_def)
  have d: "{UseDiskCache, UseRenderingThreads} - {UseRenderingThreads} = {UseDiskCache}"
    "{UseDiskCache, UseRenderingThreads} - {UseDiskCache} = {UseRenderingThreads}"
    by auto
  show ?thesis
    using setStrategyEnabled_reload_only_on_change
        [of KGameRendererPrivate_setTheme noFetch False demo UseDiskCache]
      setStrategyEnabled_reload_only_on_change
        [of KGameRendererPrivate_setTheme noFetch True demo UseDiskCache]
    by (simp add: st th d)
qed

subsection \<open>Frame numbers\<close>

lemma cpp_rem_nonneg: "0 \<le> a \<Longrightarrow> 0 < b \<Longrightarrow> cpp_rem a b = a mod b"
  by (cases "a = 0") (simp_all add: cpp_rem_def)

lemma spriteFrameKey_in_range:
  assumes fc: "frameCount ld fp key s = Inr (N, s1)" and N: "0 < N"
    and B: "0 \<le> m_frameBaseIndex s1" and f: "m_frameBaseIndex s1 \<le> f" "f \<le> INT_MAX"
  shows "spriteFrameKey ld fp key f True s =
           Inr (key @ arg (m_frameSuffix s1)
                  (m_frameBaseIndex s1 + (f - m_frameBaseIndex s1) mod N), s1)"
proof -
  let ?B = "m_frameBaseIndex s1"
  have d: "checked (f - ?B) = Inr (f - ?B)"
    using B f by (simp add: checked_def INT_MIN_def INT_MAX_def)
  have "0 \<le> (f - ?B) mod N" "(f - ?B) mod N \<le> f - ?B"
    using N f by (simp_all add: zmod_le_nonneg_dividend)
  then have r: "checked ((f - ?B) mod N + ?B) = Inr ((f - ?B) mod N + ?B)"
    using B f by (simp add: checked_def INT_MIN_def INT_MAX_def)
  from B f have "\<not> f < 0" by simp
  then show ?thesis
    using fc N f d r by (simp add: spriteFrameKey_def cpp_rem_nonneg add.commute)
qed

text \<open>
  C5, as the code has it. Let the sprite have \<open>N > 0\<close> frames and let the frame base
  index \<open>B\<close> be at least 0. A negative frame gives the sprite key itself. A frame
  \<open>f\<close> from \<open>B\<close> on (within \<open>int\<close>) gives the key of frame
  \<open>B + (f - B) mod N\<close>, which lies in \<open>[B, B + N)\<close>; so frame \<open>B + N + k\<close> gives
  the same element key, and the same engine, as frame \<open>B + k mod N\<close>.
\<close>

theorem spriteFrameKey_normalizes:
  assumes fc: "frameCount ld fp key s = Inr (N, s1)" and N: "0 < N"
    and B: "0 \<le> m_frameBaseIndex s1"
  shows "(f < 0 \<longrightarrow> spriteFrameKey ld fp key f True s = Inr (key, s))
    \<and> (m_frameBaseIndex s1 \<le> f \<and> f \<le> INT_MAX \<longrightarrow>
         spriteFrameKey ld fp key f True s =
           Inr (key @ arg (m_frameSuffix s1)
                  (m_frameBaseIndex s1 + (f - m_frameBaseIndex s1) mod N), s1)
         \<and> m_frameBaseIndex s1 \<le> m_frameBaseIndex s1 + (f - m_frameBaseIndex s1) mod N
         \<and> m_frameBaseIndex s1 + (f - m_frameBaseIndex s1) mod N < m_frameBaseIndex s1 + N)
    \<and> (0 \<le> k \<and> m_frameBaseIndex s1 + N + k \<le> INT_MAX \<longrightarrow>
         spriteFrameKey ld fp key (m_frameBaseIndex s1 + N + k) True s =
         spriteFrameKey ld fp key (m_frameBaseIndex s1 + k mod N) True s)"
proof (intro conjI impI)
  assume "f < 0"
  then show "spriteFrameKey ld fp key f True s = Inr (key, s)"
    by (simp add: spriteFrameKey_def)
next
  assume "m_frameBaseIndex s1 \<le> f \<and> f \<le> INT_MAX"
  then show "spriteFrameKey ld fp key f True s =
           Inr (key @ arg (m_frameSuffix s1)
                  (m_frameBaseIndex s1 + (f - m_frameBaseIndex s1) mod N), s1)"
    using spriteFrameKey_in_range [OF fc N B] by simp
next
  show "m_frameBaseIndex s1 \<le> m_frameBaseIndex s1 + (f - m_frameBaseIndex s1) mod N"
    using N by simp
next
  show "m_frameBaseIndex s1 + (f - m_frameBaseIndex s1) mod N < m_frameBaseIndex s1 + N"
    using N by simp
next
  let ?B = "m_frameBaseIndex s1"
  assume k: "0 \<le> k \<and> ?B + N + k \<le> INT_MAX"
  have km: "0 \<le> k mod N" "k mod N \<le> k"
    using N k by (simp_all add: zmod_le_nonneg_dividend)
  have 1: "spriteFrameKey ld fp key (?B + N + k) True s =
      Inr (key @ arg (m_frameSuffix s1) (?B + (?B + N + k - ?B) mod N), s1)"
    using k N by (intro spriteFrameKey_in_range [OF fc N B]) simp_all
  have 2: "spriteFrameKey ld fp key (?B + k mod N) True s =
      Inr (key @ arg (m_frameSuffix s1) (?B + (?B + k mod N - ?B) mod N), s1)"
    using k N km by (intro spriteFrameKey_in_range [OF fc N B]) simp_all
  show "spriteFrameKey ld fp key (?B + N + k) True s = spriteFrameKey ld fp key (?B + k mod N) True s"
    unfolding 1 2 by (simp add: add.commute [of N k])
qed

lemma frameCount_ship:
  "frameCount KGameRendererPrivate_setTheme noFetch ''ship'' demo =
     Inr (4, snd (projr (frameCount KGameRendererPrivate_setTheme noFetch ''ship'' demo)))"
  by (simp add: run_defs arg_frameSuffix number_small probe.simps Let_def)

lemma frameCount_ship_base:
  "m_frameBaseIndex (snd (projr (frameCount KGameRendererPrivate_setTheme noFetch ''ship'' demo))) = 0"
  "m_frameSuffix (snd (projr (frameCount KGameRendererPrivate_setTheme noFetch ''ship'' demo))) = ''_%1''"
  by (simp_all add: run_defs arg_frameSuffix number_small probe.simps Let_def)

text \<open>
  Witness for C5: the sprite \<open>ship\<close> of \<open>demo\<close> has four frames from 0; frame 6 is
  frame 2.
\<close>

theorem spriteFrameKey_normalizes_witness:
  "answer (spriteFrameKey KGameRendererPrivate_setTheme noFetch ''ship'' (- 1) True demo) = Inr ''ship''
   \<and> answer (spriteFrameKey KGameRendererPrivate_setTheme noFetch ''ship'' 6 True demo) = Inr ''ship_2''
   \<and> spriteFrameKey KGameRendererPrivate_setTheme noFetch ''ship'' 6 True demo
     = spriteFrameKey KGameRendererPrivate_setTheme noFetch ''ship'' 2 True demo"
proof -
  note T = spriteFrameKey_normalizes [OF frameCount_ship, unfolded frameCount_ship_base]
  have a: "answer (spriteFrameKey KGameRendererPrivate_setTheme noFetch ''ship'' (- 1) True demo) = Inr ''ship''"
    using T [of "- 1" 0] by (simp add: answer_def)
  have b: "answer (spriteFrameKey KGameRendererPrivate_setTheme noFetch ''ship'' 6 True demo) = Inr ''ship_2''"
    using T [of 6 0] by (simp add: answer_def INT_MAX_def arg_frameSuffix number_small)
  have c: "spriteFrameKey KGameRendererPrivate_setTheme noFetch ''ship'' 6 True demo
     = spriteFrameKey KGameRendererPrivate_setTheme noFetch ''ship'' 2 True demo"
    using T [of 0 2] by (simp add: INT_MAX_def)
  from a b c show ?thesis by simp
qed

text \<open>
  C5 as stated fails for two kinds of frames out of range. Frame -1 of the animated sprite
  \<open>ship\<close> gives the bare key \<open>ship\<close>. With the base index 5, the sprite \<open>boat\<close> has
  the four frames 5 to 8, and frame 2 gives \<open>boat_2\<close>, which is not a frame of
  \<open>[5, 9)\<close>: the remainder of C++ is negative for a negative dividend.
\<close>

theorem spriteFrameKey_outside_range:
  "answer (frameCount KGameRendererPrivate_setTheme noFetch ''ship'' demo) = Inr 4
   \<and> answer (spriteFrameKey KGameRendererPrivate_setTheme noFetch ''ship'' (- 1) True demo) = Inr ''ship''
   \<and> answer (frameCount KGameRendererPrivate_setTheme noFetch ''boat'' (setFrameBaseIndex 5 demo)) = Inr 4
   \<and> answer (spriteFrameKey KGameRendererPrivate_setTheme noFetch ''boat'' 2 True (setFrameBaseIndex 5 demo)) = Inr ''boat_2''"
  by (simp add: run_defs arg_frameSuffix number_small probe.simps Let_def)

subsection \<open>The persistent cache in \<open>frameCount\<close>\<close>









subsection \<open>The persistent cache in \<open>boundsOnSprite\<close>\<close>

lemma boundsOnSprite_shared_Inr:
  assumes "boundsOnSprite_shared ek s = Inr (found, s1)"
  shows "trace s1 = trace s @
           (if \<not> hasAvailableRenderers (m_rendererPool s) \<and> UseDiskCache \<in> m_strategies s
            then [Find (m_boundsPrefix s @ ek)] else [])
         \<and> m_rendererPool s1 = m_rendererPool s \<and> m_strategies s1 = m_strategies s
         \<and> m_boundsPrefix s1 = m_boundsPrefix s \<and> m_boundsCache s1 = m_boundsCache s
         \<and> m_imageCache s1 = m_imageCache s \<and> svgFiles s1 = svgFiles s
         \<and> (hasAvailableRenderers (m_rendererPool s) \<longrightarrow> found = None)"
  using assms
  by (auto simp: boundsOnSprite_shared_def Let_def emit_def split: if_splits sum.splits
      dest!: imageCache_find_Inr)

lemma boundsOnSprite_svg_Inr:
  assumes "boundsOnSprite_svg ek s = Inr (r, s1)"
  shows "trace s1 = trace s @
           (if UseDiskCache \<in> m_strategies s then [Insert (m_boundsPrefix s @ ek) (Stream r)] else [])
         \<and> m_boundsCache s1 = m_boundsCache s
         \<and> (if UseDiskCache \<in> m_strategies s
             then storeEntry (m_boundsPrefix s @ ek) s1 = Some (Stream r)
             else m_imageCache s1 = m_imageCache s)
         \<and> (hash_key (m_hash (m_rendererPool s)) None = Some renderer \<longrightarrow>
               r = boundsOnElement renderer ek)"
proof -
  obtain ro pool where a: "allocRenderer (svgFiles s) controlThread (m_rendererPool s) = (ro, pool)"
    by (cases "allocRenderer (svgFiles s) controlThread (m_rendererPool s)")
  with assms obtain rd where ro: "ro = Some rd"
    by (cases ro) (auto simp: boundsOnSprite_svg_def)
  have idle: "hash_key (m_hash (m_rendererPool s)) None = Some renderer \<longrightarrow> rd = renderer"
    using a ro by (auto simp: allocRenderer_def)
  let ?s1 = "s\<lparr>m_rendererPool := freeRenderer rd pool\<rparr>"
  show ?thesis
  proof (cases "UseDiskCache \<in> m_strategies s")
    case False
    with assms a ro have "s1 = ?s1" "r = boundsOnElement rd ek"
      by (auto simp: boundsOnSprite_svg_def Let_def)
    with False idle show ?thesis by auto
  next
    case True
    with assms a ro have i: "imageCache_insert (m_boundsPrefix s @ ek) (Stream (boundsOnElement rd ek)) ?s1 = Inr s1"
      and r: "r = boundsOnElement rd ek"
      by (auto simp: boundsOnSprite_svg_def Let_def split: sum.splits)
    from imageCache_insert_Inr [OF i] True idle r show ?thesis by auto
  qed
qed

lemma boundsOnElementKey_gate:
  assumes theme: "m_currentTheme s0 \<noteq> []"
    and ret: "boundsOnElementKey ld fp ek s0 = Inr (r, s')"
  shows "(Find k \<in> set (newEvents s0 s') \<longleftrightarrow>
            k = m_boundsPrefix s0 @ ek \<and> m_boundsCache s0 ek = None
            \<and> \<not> hasAvailableRenderers (m_rendererPool s0) \<and> UseDiskCache \<in> m_strategies s0)
    \<and> (m_boundsCache s0 ek = None \<and> hash_key (m_hash (m_rendererPool s0)) None = Some renderer \<longrightarrow>
          r = boundsOnElement renderer ek \<and> m_boundsCache s' ek = Some r
          \<and> (if UseDiskCache \<in> m_strategies s0
              then storeEntry (m_boundsPrefix s0 @ ek) s' = Some (Stream r)
              else m_imageCache s' = m_imageCache s0))"
proof (cases "m_boundsCache s0 ek")
  case (Some a)
  with assms have "s' = s0" by (simp add: boundsOnElementKey_def)
  with Some show ?thesis by simp
next
  case None
  from assms None obtain found s1 where sh: "boundsOnSprite_shared ek s0 = Inr (found, s1)"
    by (cases "boundsOnSprite_shared ek s0") (auto simp: boundsOnElementKey_def)
  note S = boundsOnSprite_shared_Inr [OF sh]
  show ?thesis
  proof (cases found)
    case (Some b)
    with assms None sh have s': "s' = s1\<lparr>m_boundsCache := (m_boundsCache s1)(ek \<mapsto> b)\<rparr>"
      by (auto simp: boundsOnElementKey_def)
    from S s' have "newEvents s0 s' =
        (if \<not> hasAvailableRenderers (m_rendererPool s0) \<and> UseDiskCache \<in> m_strategies s0
         then [Find (m_boundsPrefix s0 @ ek)] else [])"
      by (intro newEvents_append) simp
    moreover from S Some have "\<not> hasAvailableRenderers (m_rendererPool s0)" by auto
    then have "hash_key (m_hash (m_rendererPool s0)) None = None"
      by (simp add: hasAvailableRenderers_def)
    ultimately show ?thesis using None S Some
      by (auto split: if_splits)
  next
    case nf: None
    from assms None sh nf obtain b s2 where svg: "boundsOnSprite_svg ek s1 = Inr (b, s2)"
      and s': "s' = s2\<lparr>m_boundsCache := (m_boundsCache s2)(ek \<mapsto> b)\<rparr>" and r: "r = b"
      by (cases "boundsOnSprite_svg ek s1") (auto simp: boundsOnElementKey_def)
    note V = boundsOnSprite_svg_Inr [OF svg, of renderer]
    from S V s' have "newEvents s0 s' =
        (if \<not> hasAvailableRenderers (m_rendererPool s0) \<and> UseDiskCache \<in> m_strategies s0
         then [Find (m_boundsPrefix s0 @ ek)] else [])
        @ (if UseDiskCache \<in> m_strategies s0 then [Insert (m_boundsPrefix s0 @ ek) (Stream b)] else [])"
      by (intro newEvents_append) simp
    then show ?thesis using None S V s' r
      by (auto simp: storeEntry_def split: if_splits)
  qed
qed

text \<open>
  C7, as the code has it. Let \<open>s0\<close> be the engine after \<open>boundsOnSprite\<close> has computed
  the element key, with a theme active, and let the call return. It calls \<open>find\<close> on the
  persistent cache exactly when the bounds are not in the in-process cache, no renderer of
  the pool is idle and the disk cache is enabled, and then under the bounds key of the
  element. When the in-process cache misses and a renderer is idle, the bounds are those
  this renderer reports; they are written to the in-process cache, and to the persistent
  cache when the disk cache is enabled, which is otherwise left as it was.
\<close>

theorem boundsOnSprite_store_gate:
  assumes key: "spriteFrameKey ld fp key frame True s = Inr (ek, s0)"
    and theme: "m_currentTheme s0 \<noteq> []"
    and ret: "boundsOnSprite ld fp key frame s = Inr (r, s')"
  shows "(Find k \<in> set (newEvents s0 s') \<longleftrightarrow>
            k = m_boundsPrefix s0 @ ek \<and> m_boundsCache s0 ek = None
            \<and> \<not> hasAvailableRenderers (m_rendererPool s0) \<and> UseDiskCache \<in> m_strategies s0)
    \<and> (m_boundsCache s0 ek = None \<and> hash_key (m_hash (m_rendererPool s0)) None = Some renderer \<longrightarrow>
          r = boundsOnElement renderer ek \<and> m_boundsCache s' ek = Some r
          \<and> (if UseDiskCache \<in> m_strategies s0
              then storeEntry (m_boundsPrefix s0 @ ek) s' = Some (Stream r)
              else m_imageCache s' = m_imageCache s0))"
proof -
  from key ret have "boundsOnElementKey ld fp ek s0 = Inr (r, s')"
    by (simp add: boundsOnSprite_def)
  from boundsOnElementKey_gate [OF theme this] show ?thesis .
qed

lemma bounds_player_idle:
  "spriteFrameKey KGameRendererPrivate_setTheme noFetch ''player'' (- 1) True demoIdle = Inr (''player'', demoIdle)"
  "m_currentTheme demoIdle \<noteq> []"
  "boundsOnSprite KGameRendererPrivate_setTheme noFetch ''player'' (- 1) demoIdle
     = Inr (QRectF 0 16 4 4, snd (projr (boundsOnSprite KGameRendererPrivate_setTheme noFetch ''player'' (- 1) demoIdle)))"
  "hash_key (m_hash (m_rendererPool demoIdle)) None = Some (QSvgRenderer 1 (Some demoDoc))"
  "m_boundsCache demoIdle ''player'' = None"
  "UseDiskCache \<in> m_strategies demoIdle"
  "m_boundsPrefix demoIdle = ''br-''"
  by (simp_all add: run_defs Let_def)

text \<open>
  Witness for C7: the bounds of \<open>player\<close> on \<open>demoIdle\<close>, where a renderer is idle and
  the disk cache is enabled.
\<close>

theorem boundsOnSprite_store_gate_witness:
  "Find ''br-player'' \<notin> set (newEvents demoIdle
      (snd (projr (boundsOnSprite KGameRendererPrivate_setTheme noFetch ''player'' (- 1) demoIdle))))
   \<and> boundsCached ''player''
        (snd (projr (boundsOnSprite KGameRendererPrivate_setTheme noFetch ''player'' (- 1) demoIdle)))
      = Some (QRectF 0 16 4 4)
   \<and> storeEntry ''br-player''
        (snd (projr (boundsOnSprite KGameRendererPrivate_setTheme noFetch ''player'' (- 1) demoIdle)))
      = Some (Stream (QRectF 0 16 4 4))"
  using boundsOnSprite_store_gate [OF bounds_player_idle(1,2,3), of "''br-player''" "QSvgRenderer 1 (Some demoDoc)"]
  by (simp add: bounds_player_idle(4,5,6,7) hasAvailableRenderers_def boundsCached_def)

text \<open>
  C7 as stated fails where it says that the bounds are written to both tiers: with the
  disk cache switched off and an idle renderer, the bounds of \<open>player\<close> come from the SVG
  and reach the in-process cache, and the persistent cache is not called at all.
\<close>

theorem boundsOnSprite_without_disk_cache:
  "hasAvailableRenderers (m_rendererPool demoIdleNoDisk)
   \<and> boundsCached ''player'' demoIdleNoDisk = None
   \<and> answer (boundsOnSprite KGameRendererPrivate_setTheme noFetch ''player'' (- 1) demoIdleNoDisk)
       = Inr (QRectF 0 16 4 4)
   \<and> after (boundsCached ''player'')
       (boundsOnSprite KGameRendererPrivate_setTheme noFetch ''player'' (- 1) demoIdleNoDisk)
       = Inr (Some (QRectF 0 16 4 4))
   \<and> after (storeEntry ''br-player'')
       (boundsOnSprite KGameRendererPrivate_setTheme noFetch ''player'' (- 1) demoIdleNoDisk)
       = Inr None
   \<and> calls demoIdleNoDisk
       (boundsOnSprite KGameRendererPrivate_setTheme noFetch ''player'' (- 1) demoIdleNoDisk)
       = Inr []"
  by (simp add: run_defs Let_def)

subsection \<open>Themes that fail to load\<close>

text \<open>
  The fallback in \<open>setTheme\<close>, for any private loader: when the loader rejects the theme
  and the default theme and leaves the engine as it is, an engine without theme and clients
  stays as it is, and the queries give the values for a sprite that was not found.
\<close>

lemma setTheme_rejected:
  assumes "m_currentTheme s = []" and "m_clients s = []"
    and "ld theme s = (False, s)" and "ld (m_defaultTheme s) s = (False, s)"
  shows "setTheme ld fp theme s = Inr s"
  using assms by (auto simp: setTheme_def setTheme_announce_def Let_def)

lemma ensureTheme_rejected:
  assumes "m_currentTheme s = []" and "m_clients s = []"
    and "ld (m_defaultTheme s) s = (False, s)"
  shows "ensureTheme ld fp s = Inr s"
  using assms by (auto simp: ensureTheme_def setTheme_def setTheme_announce_def Let_def)

lemma frameCount_no_theme:
  assumes "m_currentTheme s = []" and "m_clients s = []"
    and "ld (m_defaultTheme s) s = (False, s)"
  shows "frameCount ld fp key s = Inr (- 1, s)"
  using assms by (simp add: frameCount_def ensureTheme_rejected)

lemma spriteFrameKey_no_theme:
  assumes "m_currentTheme s = []" and "m_clients s = []"
    and "ld (m_defaultTheme s) s = (False, s)"
  shows "spriteFrameKey ld fp key frame True s = Inr (key, s)"
  using assms by (simp add: spriteFrameKey_def frameCount_no_theme)

lemma boundsOnSprite_no_theme:
  assumes "m_currentTheme s = []" and "m_clients s = []"
    and "ld (m_defaultTheme s) s = (False, s)"
  shows "boundsOnSprite ld fp key frame s = Inr (nullRect, s)"
  using assms
  by (simp add: boundsOnSprite_def boundsOnElementKey_def spriteFrameKey_no_theme
      ensureTheme_rejected)

lemma spritePixmap_no_theme:
  assumes "m_currentTheme s = []" and "m_clients s = []"
    and "ld (m_defaultTheme s) s = (False, s)"
  shows "spritePixmap ld fp key sz frame colors s = Inr (NullPixmap, s)"
  using assms
  by (simp add: spritePixmap_def requestPixmap_def requestPixmap_keyed_def
      requestPixmap_themed_def propagateResult_def spriteFrameKey_no_theme ensureTheme_rejected)





subsection \<open>The engines the program reaches\<close>



















text \<open>A client that comes and goes leaves an engine without clients as it was.\<close>

lemma deregisterClient_registerClient:
  "m_clients s = [] \<Longrightarrow> deregisterClient c (registerClient c s) = s"
  by (simp add: deregisterClient_def registerClient_def)




text \<open>
  The stack is used up in this way: with a default theme, a registered client and specs
  that have a size and a frame, the lazy load of the default theme fetches the pixmaps of
  the clients, each fetch asks for the frame count, and that loads the default theme
  again, at every depth.
\<close>

lemma update_not_Nil: "AList.update k v al \<noteq> []"
  by (cases al) auto

lemma ensureTheme_overflow:
  assumes "m_currentTheme s = []" and "m_defaultTheme s \<noteq> []" and "m_clients s \<noteq> []"
    and valid: "\<forall>c. 0 < spec_width (specs c) \<and> 0 < spec_height (specs c) \<and> 0 \<le> spec_frame (specs c)"
  shows "ensureTheme KGameRendererPrivate_setTheme (fetchPixmap specs depth) s = Inl StackOverflow"
  using assms(1,2,3)
proof (induction depth arbitrary: s)
  case 0
  then obtain c k cs where "m_clients s = (c, k) # cs" by (cases "m_clients s") auto
  with 0 show ?case
    by (simp add: ensureTheme_def setTheme_def setTheme_announce_def
        KGameRendererPrivate_setTheme_def)
next
  case (Suc depth)
  then obtain c k cs where cl: "m_clients s = (c, k) # cs" by (cases "m_clients s") auto
  let ?s1 = "s\<lparr>m_clients := AList.update c [] (m_clients s)\<rparr>"
  from Suc.prems have "ensureTheme KGameRendererPrivate_setTheme (fetchPixmap specs depth) ?s1
      = Inl StackOverflow"
    by (intro Suc.IH) (simp_all add: update_not_Nil)
  then have "frameCount KGameRendererPrivate_setTheme (fetchPixmap specs depth)
      (spec_spriteKey (specs c)) ?s1 = Inl StackOverflow"
    by (simp add: frameCount_def)
  moreover from valid have "0 < spec_width (specs c)" "0 < spec_height (specs c)"
    "\<not> spec_frame (specs c) < 0" by (simp_all add: not_less)
  ultimately have "fetchPixmap specs (Suc depth) c ?s1 = Inl StackOverflow"
    by (simp add: requestPixmap_def spriteFrameKey_def)
  with cl Suc.prems show ?case
    by (simp add: ensureTheme_def setTheme_def setTheme_announce_def
        KGameRendererPrivate_setTheme_def)
qed

lemma frameCount_overflow:
  "reachable (registerClient 7 fresh)"
  "frameCount KGameRendererPrivate_setTheme (fetchPixmap (\<lambda>c. shipSpec 10) depth) key
     (registerClient 7 fresh) = Inl StackOverflow"
proof -
  show "reachable (registerClient 7 fresh)"
    unfolding fresh_def by (intro reachable.after_registerClient reachable.constructed)
  have "ensureTheme KGameRendererPrivate_setTheme (fetchPixmap (\<lambda>c. shipSpec 10) depth)
      (registerClient 7 fresh) = Inl StackOverflow"
    by (rule ensureTheme_overflow)
      (simp_all add: registerClient_def fresh_def KGameRendererPrivate_new_def shipSpec_def)
  then show "frameCount KGameRendererPrivate_setTheme (fetchPixmap (\<lambda>c. shipSpec 10) depth) key
     (registerClient 7 fresh) = Inl StackOverflow"
    by (simp add: frameCount_def)
qed

subsection \<open>Requests and finished jobs\<close>

lemma receiveAll_eq:
  "receiveAll rs p s = s\<lparr>trace := trace s @ map (\<lambda>c. ReceivePixmap c p) rs\<rparr>"
  by (induction rs arbitrary: s) (simp_all add: emit_def)

lemma set_hash_keys: "set (hash_keys m k) = {c. map_of m c = Some k}"
  by (auto simp: hash_keys_def dest: map_of_SomeD intro: rev_image_eqI)

lemma imageCache_insertImage_Inr:
  "imageCache_insertImage k img s = Inr s1 \<Longrightarrow>
   trace s1 = trace s @ [InsertImage k img] \<and> keepsRequests s s1"
  by (auto simp: imageCache_insertImage_def emit_def keepsRequests_def split: option.splits)

lemma imageCache_findPixmap_Inr:
  "imageCache_findPixmap k s = Inr (found, s1) \<Longrightarrow> s1 = emit (FindPixmap k) s"
  by (auto simp: imageCache_findPixmap_def split: option.splits)

lemma jobFinished_Inr:
  assumes "jobFinished job sync s = Inr s'"
  shows "m_clients s' = m_clients s \<and> m_workerPool s' = m_workerPool s
    \<and> m_currentTheme s' = m_currentTheme s \<and> m_strategies s' = m_strategies s
    \<and> m_pendingRequests s' = removeAll (job_cacheKey job) (m_pendingRequests s)
    \<and> newEvents s s' =
        (if UseDiskCache \<in> m_strategies s then [InsertImage (job_cacheKey job) (job_result job)] else [])
        @ map (\<lambda>c. ReceivePixmap c (fromImage (job_result job)))
            (hash_keys (m_clients s) (job_cacheKey job))"
proof -
  let ?k = "job_cacheKey job" and ?img = "job_result job"
  let ?s1 = "s\<lparr>m_pendingRequests := removeAll ?k (m_pendingRequests s)\<rparr>"
  let ?rs = "hash_keys (m_clients s) ?k"
  show ?thesis
  proof (cases "UseDiskCache \<in> m_strategies s")
    case False
    with assms have "s' = jobFinished_deliver ?k ?img ?rs ?s1"
      by (simp add: jobFinished_def Let_def)
    with False show ?thesis
      by (simp add: jobFinished_deliver_def receiveAll_eq newEvents_def Let_def)
  next
    case True
    with assms obtain s2 where i: "imageCache_insertImage ?k ?img ?s1 = Inr s2"
      and s': "s' = (if \<not> sync \<and> ?rs = [] then s2 else jobFinished_deliver ?k ?img ?rs s2)"
      by (cases "imageCache_insertImage ?k ?img ?s1")
        (auto simp: jobFinished_def Let_def split: if_splits)
    from imageCache_insertImage_Inr [OF i] s' True show ?thesis
      by (auto simp: jobFinished_deliver_def receiveAll_eq newEvents_def keepsRequests_def Let_def)
  qed
qed

lemma jobFinished_notifies:
  assumes "jobFinished job sync s = Inr s'"
  shows "ReceivePixmap c p \<in> set (newEvents s s') \<longleftrightarrow>
           p = fromImage (job_result job) \<and> map_of (m_clients s) c = Some (job_cacheKey job)"
  using jobFinished_Inr [OF assms] by (auto simp: set_hash_keys)

lemma Worker_run_Inr:
  assumes "Worker_run t job sync s = Inr s'"
  shows "m_clients s' = m_clients s \<and> m_workerPool s' = m_workerPool s
    \<and> m_currentTheme s' = m_currentTheme s
    \<and> m_pendingRequests s' = removeAll (job_cacheKey job) (m_pendingRequests s)"
proof -
  obtain ro pool where a: "allocRenderer (svgFiles s) t (m_rendererPool s) = (ro, pool)"
    by (cases "allocRenderer (svgFiles s) t (m_rendererPool s)")
  with assms obtain rd where ro: "ro = Some rd"
    by (cases ro) (auto simp: Worker_run_def)
  from assms a ro obtain img where
    "jobFinished (job\<lparr>job_result := img\<rparr>) sync (s\<lparr>m_rendererPool := freeRenderer rd pool\<rparr>) = Inr s'"
    by (auto simp: Worker_run_def Let_def)
  from jobFinished_Inr [OF this] show ?thesis by simp
qed

lemma startsJobFor_trace [simp]: "startsJobFor k s (s'\<lparr>trace := tr\<rparr>) = startsJobFor k s s'"
  by (simp add: startsJobFor_def)

lemma startsJobFor_pixmapCache [simp]:
  "startsJobFor k s (s'\<lparr>m_pixmapCache := pc\<rparr>) = startsJobFor k s s'"
  by (simp add: startsJobFor_def)

lemma startsJobFor_same:
  "m_workerPool s' = m_workerPool s \<Longrightarrow> m_pendingRequests s' = m_pendingRequests s
   \<Longrightarrow> startsJobFor k s s'"
  by (simp add: startsJobFor_def)

lemma startsJobFor_cong:
  "m_workerPool t = m_workerPool s \<Longrightarrow> m_pendingRequests t = m_pendingRequests s
   \<Longrightarrow> startsJobFor k t s' = startsJobFor k s s'"
  by (simp add: startsJobFor_def)

lemma dispatch_Inr:
  assumes "requestPixmap_dispatch spec (Some c) ek k s = Inr (w, s1)"
  shows "m_clients s1 = m_clients s \<and> m_currentTheme s1 = m_currentTheme s \<and> startsJobFor k s s1"
proof (cases "k \<in> set (m_pendingRequests s)")
  case True
  with assms show ?thesis by (simp add: requestPixmap_dispatch_def startsJobFor_def)
next
  case np: False
  let ?job = "\<lparr>job_cacheKey = k, job_elementKey = ek, job_spec = spec, job_result = NullImage\<rparr>"
  show ?thesis
  proof (cases "UseRenderingThreads \<in> m_strategies s")
    case True
    with assms np have "s1 = s\<lparr>m_workerPool := m_workerPool s @ [?job],
                  m_pendingRequests := m_pendingRequests s @ [k]\<rparr>"
      by (simp add: requestPixmap_dispatch_def Let_def)
    with np show ?thesis by (simp add: startsJobFor_def)
  next
    case False
    with assms np obtain s2 where r: "Worker_run controlThread ?job True s = Inr s2"
      and s1: "\<exists>p. s1 = propagateResult p (Some c) s2"
      by (cases "Worker_run controlThread ?job True s")
        (auto simp: requestPixmap_dispatch_def Let_def)
    from Worker_run_Inr [OF r] s1 np show ?thesis
      by (auto simp: propagateResult_def emit_def startsJobFor_def)
  qed
qed

lemma serve_Inr:
  assumes "requestPixmap_serve spec (Some c) ek k s = Inr (w, s1)"
  shows "m_clients s1 = m_clients s \<and> m_currentTheme s1 = m_currentTheme s \<and> startsJobFor k s s1"
proof (cases "m_pixmapCache s k")
  case (Some p)
  with assms show ?thesis
    by (auto simp: requestPixmap_serve_def propagateResult_def emit_def startsJobFor_def)
next
  case None
  show ?thesis
  proof (cases "UseDiskCache \<in> m_strategies s")
    case False
    with assms None show ?thesis by (auto simp: requestPixmap_serve_def dest: dispatch_Inr)
  next
    case True
    with assms None obtain found s2 where f: "imageCache_findPixmap k s = Inr (found, s2)"
      by (cases "imageCache_findPixmap k s") (auto simp: requestPixmap_serve_def)
    note e = imageCache_findPixmap_Inr [OF f]
    show ?thesis
    proof (cases found)
      case (Some pix)
      with assms None True f e show ?thesis
        by (auto simp: requestPixmap_serve_def propagateResult_def emit_def startsJobFor_def)
    next
      case nf: None
      with assms None True f have "requestPixmap_dispatch spec (Some c) ek k s2 = Inr (w, s1)"
        by (simp add: requestPixmap_serve_def)
      from dispatch_Inr [OF this] have "m_clients s1 = m_clients s2"
        and "m_currentTheme s1 = m_currentTheme s2" and "startsJobFor k s2 s1"
        by simp_all
      moreover have "startsJobFor k s2 s1 = startsJobFor k s s1"
        using e by (intro startsJobFor_cong) (simp_all add: emit_def)
      ultimately show ?thesis using e by (simp add: emit_def)
    qed
  qed
qed

lemma keyed_Inr:
  assumes theme: "m_currentTheme s \<noteq> []"
    and ret: "requestPixmap_keyed ld fp spec (Some c) ek k s = Inr (w, s1)"
  shows "m_currentTheme s1 = m_currentTheme s \<and> startsJobFor k s s1
    \<and> (if hash_value (m_clients s) c = k then s1 = s
        else m_clients s1 = AList.update c k (m_clients s))"
proof (cases "hash_value (m_clients s) c = k")
  case True
  with ret show ?thesis by (simp add: requestPixmap_keyed_def startsJobFor_def)
next
  case False
  let ?s = "s\<lparr>m_clients := AList.update c k (m_clients s)\<rparr>"
  from ret False theme have "requestPixmap_serve spec (Some c) ek k ?s = Inr (w, s1)"
    by (simp add: requestPixmap_keyed_def requestPixmap_themed_def ensureTheme_def)
  from serve_Inr [OF this] have "m_clients s1 = AList.update c k (m_clients s)"
    and "m_currentTheme s1 = m_currentTheme s" and "startsJobFor k ?s s1"
    by simp_all
  moreover have "startsJobFor k ?s s1 = startsJobFor k s s1"
    by (rule startsJobFor_cong) simp_all
  ultimately show ?thesis using False by simp
qed

lemma requestPixmap_Inr:
  assumes theme: "m_currentTheme s \<noteq> []"
    and size: "0 < spec_width spec" "0 < spec_height spec"
    and key: "spriteFrameKey ld fp (spec_spriteKey spec) (spec_frame spec) True s = Inr (ek, t)"
    and ret: "requestPixmap ld fp spec (Some c) s = Inr (w, s1)"
  shows "m_currentTheme s1 = m_currentTheme s \<and> startsJobFor (makeCacheKey t spec ek) s s1
    \<and> (if hash_value (m_clients s) c = makeCacheKey t spec ek then m_clients s1 = m_clients s
        else m_clients s1 = AList.update c (makeCacheKey t spec ek) (m_clients s))"
proof -
  note k = spriteFrameKey_keeps [OF theme key, unfolded keepsRequests_def]
  from ret size key
  have "requestPixmap_keyed ld fp spec (Some c) ek (makeCacheKey t spec ek) t = Inr (w, s1)"
    by (simp add: requestPixmap_def)
  moreover from k theme have "m_currentTheme t \<noteq> []" by simp
  ultimately have "m_currentTheme s1 = m_currentTheme t \<and> startsJobFor (makeCacheKey t spec ek) t s1
    \<and> (if hash_value (m_clients t) c = makeCacheKey t spec ek then s1 = t
        else m_clients s1 = AList.update c (makeCacheKey t spec ek) (m_clients t))"
    by (intro keyed_Inr)
  with k show ?thesis
    by (auto simp: startsJobFor_cong [of t s] split: if_splits)
qed

lemma recorded_after_request:
  assumes "if hash_value m c = k then m' = m else m' = AList.update c k m"
  shows "hash_value m' c = k"
    and "k \<noteq> [] \<Longrightarrow> map_of m' c = Some k"
    and "c' \<noteq> c \<Longrightarrow> map_of m' c' = map_of m c'"
  using assms
  by (auto simp: hash_value_def update_conv' split: if_splits option.splits)

text \<open>
  C3. A client \<open>c\<close> makes a request on an engine with an active theme; the request
  computes a cache key, and this key is the one recorded for \<open>c\<close> afterwards. When a job
  for another cache key finishes then, \<open>c\<close> receives nothing from it. The clients a
  finished job notifies are those whose recorded key is the key of the job, and they
  receive the pixmap of the job's image.
\<close>

theorem stale_result_not_delivered:
  assumes theme: "m_currentTheme s \<noteq> []"
    and size: "0 < spec_width spec" "0 < spec_height spec"
    and key: "spriteFrameKey ld fp (spec_spriteKey spec) (spec_frame spec) True s = Inr (ek, t)"
    and req: "requestPixmap ld fp spec (Some c) s = Inr (w, s1)"
    and stale: "job_cacheKey job \<noteq> makeCacheKey t spec ek"
    and fin: "jobFinished job sync s1 = Inr s2"
  shows "hash_value (m_clients s1) c = makeCacheKey t spec ek
    \<and> ReceivePixmap c p \<notin> set (newEvents s1 s2)
    \<and> (ReceivePixmap c' p \<in> set (newEvents s1 s2) \<longleftrightarrow>
         p = fromImage (job_result job) \<and> map_of (m_clients s1) c' = Some (job_cacheKey job))"
proof -
  from requestPixmap_Inr [OF theme size key req]
  have m: "if hash_value (m_clients s) c = makeCacheKey t spec ek then m_clients s1 = m_clients s
        else m_clients s1 = AList.update c (makeCacheKey t spec ek) (m_clients s)"
    by simp
  from recorded_after_request(1) [OF m] have rec: "hash_value (m_clients s1) c = makeCacheKey t spec ek" .
  have "map_of (m_clients s1) c \<noteq> Some (job_cacheKey job)"
    using rec stale by (auto simp: hash_value_def)
  with rec show ?thesis by (simp add: jobFinished_notifies [OF fin])
qed

text \<open>
  C4. On an engine with an active theme, a first request of client \<open>c1\<close> computes the
  cache key \<open>k\<close> and leaves it pending, and a second request of client \<open>c2\<close> computes
  the same key. The first request started exactly one job, for \<open>k\<close>; the second started
  none and ran none itself, the key stays pending. When the job finishes, both clients
  receive the pixmap of its image.
\<close>

theorem one_job_for_one_key:
  assumes theme: "m_currentTheme s \<noteq> []"
    and size1: "0 < spec_width spec1" "0 < spec_height spec1"
    and key1: "spriteFrameKey ld fp (spec_spriteKey spec1) (spec_frame spec1) True s = Inr (ek1, t1)"
    and k1: "makeCacheKey t1 spec1 ek1 = k"
    and req1: "requestPixmap ld fp spec1 (Some c1) s = Inr (w1, s1)"
    and pend: "k \<notin> set (m_pendingRequests s)" "k \<in> set (m_pendingRequests s1)"
    and size2: "0 < spec_width spec2" "0 < spec_height spec2"
    and key2: "spriteFrameKey ld fp (spec_spriteKey spec2) (spec_frame spec2) True s1 = Inr (ek2, t2)"
    and k2: "makeCacheKey t2 spec2 ek2 = k"
    and req2: "requestPixmap ld fp spec2 (Some c2) s1 = Inr (w2, s2)"
    and nonempty: "k \<noteq> []"
    and job: "job_cacheKey job = k"
    and fin: "jobFinished job False s2 = Inr s3"
  shows "(\<exists>j. m_workerPool s1 = m_workerPool s @ [j] \<and> job_cacheKey j = k)
    \<and> m_workerPool s2 = m_workerPool s1 \<and> m_pendingRequests s2 = m_pendingRequests s1
    \<and> ReceivePixmap c1 (fromImage (job_result job)) \<in> set (newEvents s2 s3)
    \<and> ReceivePixmap c2 (fromImage (job_result job)) \<in> set (newEvents s2 s3)"
proof -
  note R1 = requestPixmap_Inr [OF theme size1 key1 req1, unfolded k1]
  from R1 have theme1: "m_currentTheme s1 \<noteq> []" using theme by simp
  note R2 = requestPixmap_Inr [OF theme1 size2 key2 req2, unfolded k2]
  from R1 pend have pool1: "m_workerPool s1 =
           m_workerPool s @ [\<lparr>job_cacheKey = k, job_elementKey = job_elementKey (last (m_workerPool s1)),
                                job_spec = job_spec (last (m_workerPool s1)), job_result = NullImage\<rparr>]"
    by (simp add: startsJobFor_def)
  from R2 pend have pool2: "m_workerPool s2 = m_workerPool s1"
    and pend2: "m_pendingRequests s2 = m_pendingRequests s1"
    by (simp_all add: startsJobFor_def)
  from R1 have m1: "if hash_value (m_clients s) c1 = k then m_clients s1 = m_clients s
        else m_clients s1 = AList.update c1 k (m_clients s)" by simp
  from R2 have m2: "if hash_value (m_clients s1) c2 = k then m_clients s2 = m_clients s1
        else m_clients s2 = AList.update c2 k (m_clients s1)" by simp
  have c1_first: "map_of (m_clients s1) c1 = Some k"
    by (rule recorded_after_request(2) [OF m1 nonempty])
  have c2_rec: "map_of (m_clients s2) c2 = Some k"
    by (rule recorded_after_request(2) [OF m2 nonempty])
  have c1_rec: "map_of (m_clients s2) c1 = Some k"
  proof (cases "c1 = c2")
    case True
    with c2_rec show ?thesis by simp
  next
    case False
    from recorded_after_request(3) [OF m2 False] c1_first show ?thesis by simp
  qed
  from pool1 have "\<exists>j. m_workerPool s1 = m_workerPool s @ [j] \<and> job_cacheKey j = k"
    by (metis Job.select_convs(1))
  with c1_rec c2_rec pool2 pend2 show ?thesis
    by (simp add: jobFinished_notifies [OF fin] job)
qed

lemmas request_defs =
  requestPixmap_def requestPixmap_keyed_def requestPixmap_themed_def requestPixmap_serve_def
  requestPixmap_dispatch_def propagateResult_def makeCacheKey_def hash_value_def hash_keys_def
  jobFinished_def jobFinished_deliver_def Worker_run_def fromImage_def
  engineOf_def finished_def shipSpec_def requested10_def requested20_def requestedBoth_def
  shipJob10_def

lemma number_10_20: "number 10 = ''10''" "number 20 = ''20''"
  by code_simp+

lemma scenario_first:
  "requestPixmap KGameRendererPrivate_setTheme noFetch (shipSpec 10) (Some 7) demo = Inr (None, requested10)"
  "m_currentTheme demo \<noteq> []" "m_pendingRequests demo = []"
  "spriteFrameKey KGameRendererPrivate_setTheme noFetch ''ship'' 1 True demo
     = Inr (''ship_1'', engineOf (spriteFrameKey KGameRendererPrivate_setTheme noFetch ''ship'' 1 True demo))"
  "makeCacheKey (engineOf (spriteFrameKey KGameRendererPrivate_setTheme noFetch ''ship'' 1 True demo))
     (shipSpec 10) ''ship_1'' = ''10-10-ship_1''"
  by (simp_all add: run_defs request_defs arg_frameSuffix arg_sizePrefix number_small number_10_20
      probe.simps Let_def)

lemma scenario_requested10:
  "m_currentTheme requested10 \<noteq> []" "m_pendingRequests requested10 = [''10-10-ship_1'']"
  "m_clients requested10 = [(7, ''10-10-ship_1'')]"
  by (simp_all add: run_defs request_defs arg_frameSuffix arg_sizePrefix number_small number_10_20
      probe.simps Let_def)

lemma scenario_second:
  "spriteFrameKey KGameRendererPrivate_setTheme noFetch ''ship'' 1 True requested10
     = Inr (''ship_1'', engineOf (spriteFrameKey KGameRendererPrivate_setTheme noFetch ''ship'' 1 True requested10))"
  "makeCacheKey (engineOf (spriteFrameKey KGameRendererPrivate_setTheme noFetch ''ship'' 1 True requested10))
     (shipSpec 20) ''ship_1'' = ''20-20-ship_1''"
  "makeCacheKey (engineOf (spriteFrameKey KGameRendererPrivate_setTheme noFetch ''ship'' 1 True requested10))
     (shipSpec 10) ''ship_1'' = ''10-10-ship_1''"
  "requestPixmap KGameRendererPrivate_setTheme noFetch (shipSpec 20) (Some 7) requested10 = Inr (None, requested20)"
  "requestPixmap KGameRendererPrivate_setTheme noFetch (shipSpec 10) (Some 8) requested10 = Inr (None, requestedBoth)"
  by (simp_all add: run_defs request_defs arg_frameSuffix arg_sizePrefix number_small number_10_20
      probe.simps Let_def)

lemma scenario_finish:
  "jobFinished shipJob10 False requested20 = Inr (finished (jobFinished shipJob10 False requested20))"
  "jobFinished shipJob10 False requestedBoth = Inr (finished (jobFinished shipJob10 False requestedBoth))"
  by (simp_all add: run_defs request_defs arg_frameSuffix arg_sizePrefix number_small number_10_20
      probe.simps Let_def)

lemma scenario_spec:
  "spec_spriteKey (shipSpec w) = ''ship''" "spec_frame (shipSpec w) = 1"
  "spec_width (shipSpec w) = w" "spec_height (shipSpec w) = w"
  "job_cacheKey shipJob10 = ''10-10-ship_1''"
  by (simp_all add: shipSpec_def shipJob10_def)

text \<open>
  Witness for C3: client 7 asks for 10 by 10 and then for 20 by 20; the job for 10 by 10
  finishes and client 7 does not receive its pixmap.
\<close>

theorem stale_result_not_delivered_witness:
  "hash_value (m_clients requested20) 7 = ''20-20-ship_1''
   \<and> ReceivePixmap 7 (fromImage (job_result shipJob10))
        \<notin> set (newEvents requested20 (finished (jobFinished shipJob10 False requested20)))"
  using stale_result_not_delivered
    [where s = requested10 and spec = "shipSpec 20" and c = 7 and ld = KGameRendererPrivate_setTheme
       and fp = noFetch and ek = "''ship_1''" and w = None and ?s1.0 = requested20
       and t = "engineOf (spriteFrameKey KGameRendererPrivate_setTheme noFetch ''ship'' 1 True requested10)"
       and job = shipJob10 and sync = False
       and ?s2.0 = "finished (jobFinished shipJob10 False requested20)"
       and p = "fromImage (job_result shipJob10)" and c' = 7]
    scenario_requested10(1) scenario_second(1,4) scenario_finish(1)
  by (simp add: scenario_spec scenario_second(2))

text \<open>
  Witness for C4: clients 7 and 8 ask for the same pixmap; one job is started and both
  receive its pixmap.
\<close>

theorem one_job_for_one_key_witness:
  "(\<exists>j. m_workerPool requested10 = m_workerPool demo @ [j] \<and> job_cacheKey j = ''10-10-ship_1'')
   \<and> m_workerPool requestedBoth = m_workerPool requested10
   \<and> m_pendingRequests requestedBoth = m_pendingRequests requested10
   \<and> ReceivePixmap 7 (fromImage (job_result shipJob10))
        \<in> set (newEvents requestedBoth (finished (jobFinished shipJob10 False requestedBoth)))
   \<and> ReceivePixmap 8 (fromImage (job_result shipJob10))
        \<in> set (newEvents requestedBoth (finished (jobFinished shipJob10 False requestedBoth)))"
  using one_job_for_one_key
    [where s = demo and ?spec1.0 = "shipSpec 10" and ?c1.0 = 7 and ld = KGameRendererPrivate_setTheme
       and fp = noFetch and ?ek1.0 = "''ship_1''" and ?w1.0 = None and ?s1.0 = requested10
       and ?t1.0 = "engineOf (spriteFrameKey KGameRendererPrivate_setTheme noFetch ''ship'' 1 True demo)"
       and k = "''10-10-ship_1''"
       and ?spec2.0 = "shipSpec 10" and ?c2.0 = 8 and ?ek2.0 = "''ship_1''" and ?w2.0 = None
       and ?s2.0 = requestedBoth
       and ?t2.0 = "engineOf (spriteFrameKey KGameRendererPrivate_setTheme noFetch ''ship'' 1 True requested10)"
       and job = shipJob10
       and ?s3.0 = "finished (jobFinished shipJob10 False requestedBoth)"]
    scenario_first scenario_requested10 scenario_second(1,3,5) scenario_finish(2)
  by (simp add: scenario_spec)

subsection \<open>The null renderer\<close>

text \<open>
  \<open>allocRenderer\<close> returns the null pointer exactly when no renderer is idle and the
  file is known to be invalid.
\<close>

lemma allocRenderer_null:
  "fst (allocRenderer fs t p) = None \<longleftrightarrow>
     \<not> hasAvailableRenderers p \<and> m_valid p = Checked_Invalid"
  by (auto simp: allocRenderer_def hasAvailableRenderers_def Let_def split: option.splits)

lemma hash_key_update_idle: "hash_key (AList.update r None h) None \<noteq> None"
  by (induction h) (auto split: if_splits)

text \<open>A renderer that was freed is idle, so the next allocation on the same thread succeeds.\<close>

lemma allocRenderer_after_free: "fst (allocRenderer fs t (freeRenderer r p)) \<noteq> None"
  by (simp add: allocRenderer_null hasAvailableRenderers_def freeRenderer_def hash_key_update_idle)

text \<open>After \<open>setPath\<close> the pool hands out a renderer, whatever the file is.\<close>

lemma allocRenderer_after_setPath: "fst (allocRenderer fs t (setPath path r p)) \<noteq> None"
  by (cases r) (simp_all add: allocRenderer_null setPath_def hasAvailableRenderers_def)

text \<open>
  When a renderer is idle or the file is not known to be invalid, the call sites get a
  renderer, and the pool is in such a state again when they return: on an engine with an
  active theme whose pool is in this state, the three queries never dereference a null
  renderer as long as they run one after the other.
\<close>

lemma allocRenderer_usable:
  assumes "hasAvailableRenderers p \<or> m_valid p \<noteq> Checked_Invalid"
  obtains r p' where "allocRenderer fs t p = (Some r, p')"
proof -
  from assms have "fst (allocRenderer fs t p) \<noteq> None"
    by (auto simp: allocRenderer_null)
  then show ?thesis
    by (cases "allocRenderer fs t p") (auto intro: that)
qed

lemma hasAvailableRenderers_free [simp]: "hasAvailableRenderers (freeRenderer r p)"
  by (simp add: hasAvailableRenderers_def freeRenderer_def hash_key_update_idle)

lemma probe_error: "probe ex c = Inl e \<Longrightarrow> e = IntOverflow"
proof (induction ex c rule: probe.induct)
  case (1 ex count)
  from "1.prems" have "(if ex count
      then (if count < INT_MAX then probe ex (count + 1) else Inl IntOverflow)
      else Inr count) = Inl e"
    by (subst (asm) probe.simps) simp
  with "1.IH" show ?case by (auto split: if_splits)
qed

lemma countFrames_error: "countFrames r key s = Inl e \<Longrightarrow> e = IntOverflow"
  by (auto simp: countFrames_def checked_def split: sum.splits if_splits dest: probe_error)

lemma frameCount_svg_safe:
  assumes "hasAvailableRenderers (m_rendererPool s) \<or> m_valid (m_rendererPool s) \<noteq> Checked_Invalid"
  shows "frameCount_svg key s \<noteq> Inl NullRenderer"
    and "frameCount_svg key s = Inr (n, s1) \<Longrightarrow> hasAvailableRenderers (m_rendererPool s1)"
proof -
  from assms obtain r p' where a: "allocRenderer (svgFiles s) controlThread (m_rendererPool s) = (Some r, p')"
    by (rule allocRenderer_usable)
  show "frameCount_svg key s \<noteq> Inl NullRenderer"
    using a
    by (auto simp: frameCount_svg_def imageCache_insert_def Let_def
        split: sum.splits option.splits if_splits dest: countFrames_error)
  assume r: "frameCount_svg key s = Inr (n, s1)"
  from r a obtain count where c: "countFrames r key s = Inr count"
    by (cases "countFrames r key s") (auto simp: frameCount_svg_def)
  let ?s1 = "s\<lparr>m_rendererPool := freeRenderer r p'\<rparr>"
  show "hasAvailableRenderers (m_rendererPool s1)"
  proof (cases "UseDiskCache \<in> m_strategies s")
    case False
    with r a c have "s1 = ?s1" by (simp add: frameCount_svg_def)
    then show ?thesis by simp
  next
    case True
    with r a c have "imageCache_insert (m_frameCountPrefix s @ key) (Text (number count)) ?s1 = Inr s1"
      by (auto simp: frameCount_svg_def split: sum.splits)
    from imageCache_insert_Inr [OF this] show ?thesis by simp
  qed
qed

lemma frameCount_shared_pool:
  "frameCount_shared key s = Inr (found, s1) \<Longrightarrow> m_rendererPool s1 = m_rendererPool s"
  by (auto simp: frameCount_shared_def Let_def emit_def split: if_splits sum.splits
      dest!: imageCache_find_Inr)

lemma frameCount_shared_no_null: "frameCount_shared key s \<noteq> Inl NullRenderer"
  by (auto simp: frameCount_shared_def imageCache_find_def Let_def split: option.splits)

lemma frameCount_safe:
  assumes theme: "m_currentTheme s \<noteq> []"
    and pool: "hasAvailableRenderers (m_rendererPool s) \<or> m_valid (m_rendererPool s) \<noteq> Checked_Invalid"
  shows "frameCount ld fp key s \<noteq> Inl NullRenderer"
    and "frameCount ld fp key s = Inr (n, s1) \<Longrightarrow>
           hasAvailableRenderers (m_rendererPool s1) \<or> m_valid (m_rendererPool s1) \<noteq> Checked_Invalid"
proof -
  show "frameCount ld fp key s \<noteq> Inl NullRenderer"
  proof (cases "frameCount_shared key s")
    case (Inl e)
    with theme frameCount_shared_no_null [of key s] show ?thesis
      by (auto simp: frameCount_def split: option.splits)
  next
    case (Inr q)
    obtain found s2 where q: "q = (found, s2)" by (cases q)
    from frameCount_shared_pool [OF Inr [unfolded q]] pool
    have "frameCount_svg key s2 \<noteq> Inl NullRenderer"
      by (intro frameCount_svg_safe(1)) simp
    with theme Inr q show ?thesis
      by (auto simp: frameCount_def split: option.splits sum.splits)
  qed
  assume r: "frameCount ld fp key s = Inr (n, s1)"
  show "hasAvailableRenderers (m_rendererPool s1) \<or> m_valid (m_rendererPool s1) \<noteq> Checked_Invalid"
  proof (cases "m_frameCountCache s key")
    case (Some a)
    with r theme pool show ?thesis by (simp add: frameCount_def)
  next
    case None
    from r theme None obtain found s2 where sh: "frameCount_shared key s = Inr (found, s2)"
      by (cases "frameCount_shared key s") (auto simp: frameCount_def)
    note p2 = frameCount_shared_pool [OF sh]
    show ?thesis
    proof (cases found)
      case (Some count)
      with r theme None sh p2 pool show ?thesis by (auto simp: frameCount_def)
    next
      case nf: None
      from r theme None sh nf obtain count s3 where svg: "frameCount_svg key s2 = Inr (count, s3)"
        and s1: "s1 = s3\<lparr>m_frameCountCache := (m_frameCountCache s3)(key \<mapsto> count)\<rparr>"
        by (cases "frameCount_svg key s2") (auto simp: frameCount_def)
      from p2 pool have "hasAvailableRenderers (m_rendererPool s3)"
        by (intro frameCount_svg_safe(2) [OF _ svg]) simp
      with s1 show ?thesis by simp
    qed
  qed
qed

lemma spriteFrameKey_safe:
  assumes theme: "m_currentTheme s \<noteq> []"
    and pool: "hasAvailableRenderers (m_rendererPool s) \<or> m_valid (m_rendererPool s) \<noteq> Checked_Invalid"
  shows "spriteFrameKey ld fp key f nrm s \<noteq> Inl NullRenderer"
    and "spriteFrameKey ld fp key f nrm s = Inr (ek, s1) \<Longrightarrow>
           hasAvailableRenderers (m_rendererPool s1) \<or> m_valid (m_rendererPool s1) \<noteq> Checked_Invalid"
proof -
  show "spriteFrameKey ld fp key f nrm s \<noteq> Inl NullRenderer"
    using frameCount_safe(1) [OF theme pool, of ld fp key]
    by (auto simp: spriteFrameKey_def checked_def split: sum.splits if_splits)
  assume r: "spriteFrameKey ld fp key f nrm s = Inr (ek, s1)"
  show "hasAvailableRenderers (m_rendererPool s1) \<or> m_valid (m_rendererPool s1) \<noteq> Checked_Invalid"
  proof (cases "0 \<le> f \<and> nrm")
    case False
    with r pool show ?thesis by (auto simp: spriteFrameKey_def split: if_splits)
  next
    case True
    with r obtain n s2 where fc: "frameCount ld fp key s = Inr (n, s2)"
      by (cases "frameCount ld fp key s") (auto simp: spriteFrameKey_def)
    with r True have "s1 = s2"
      by (auto simp: spriteFrameKey_def split: if_splits sum.splits)
    with frameCount_safe(2) [OF theme pool fc] show ?thesis by simp
  qed
qed

lemma boundsOnSprite_safe:
  assumes theme: "m_currentTheme s \<noteq> []"
    and pool: "hasAvailableRenderers (m_rendererPool s) \<or> m_valid (m_rendererPool s) \<noteq> Checked_Invalid"
  shows "boundsOnSprite ld fp key f s \<noteq> Inl NullRenderer"
proof (cases "spriteFrameKey ld fp key f True s")
  case (Inl e)
  with spriteFrameKey_safe(1) [OF theme pool, of ld fp key f True] show ?thesis
    by (simp add: boundsOnSprite_def)
next
  case (Inr q)
  obtain ek s0 where q: "q = (ek, s0)" by (cases q)
  note k = spriteFrameKey_keeps [OF theme Inr [unfolded q], unfolded keepsRequests_def]
  note p0 = spriteFrameKey_safe(2) [OF theme pool Inr [unfolded q]]
  from k theme have theme0: "m_currentTheme s0 \<noteq> []" by simp
  have "boundsOnElementKey ld fp ek s0 \<noteq> Inl NullRenderer"
  proof (cases "boundsOnSprite_shared ek s0")
    case (Inl e)
    then have "e \<noteq> NullRenderer"
      by (auto simp: boundsOnSprite_shared_def imageCache_find_def Let_def
          split: if_splits option.splits)
    with Inl theme0 show ?thesis
      by (auto simp: boundsOnElementKey_def split: option.splits)
  next
    case sh: (Inr q')
    obtain found s2 where q': "q' = (found, s2)" by (cases q')
    from boundsOnSprite_shared_Inr [OF sh [unfolded q']] p0
    obtain r p' where a: "allocRenderer (svgFiles s2) controlThread (m_rendererPool s2) = (Some r, p')"
      by (auto intro: allocRenderer_usable [of "m_rendererPool s2" "svgFiles s2" controlThread])
    then have "boundsOnSprite_svg ek s2 \<noteq> Inl NullRenderer"
      by (auto simp: boundsOnSprite_svg_def imageCache_insert_def Let_def
          split: sum.splits option.splits if_splits)
    with theme0 sh q' show ?thesis
      by (auto simp: boundsOnElementKey_def split: option.splits sum.splits)
  qed
  with Inr q show ?thesis by (simp add: boundsOnSprite_def)
qed

lemma jobFinished_error: "jobFinished job sync s = Inl e \<Longrightarrow> e = NullImageCache"
  by (auto simp: jobFinished_def imageCache_insertImage_def Let_def
      split: if_splits option.splits sum.splits)

lemma Worker_run_safe:
  assumes "hasAvailableRenderers (m_rendererPool s) \<or> m_valid (m_rendererPool s) \<noteq> Checked_Invalid"
  shows "Worker_run t job sync s \<noteq> Inl NullRenderer"
proof -
  from assms obtain r p' where "allocRenderer (svgFiles s) t (m_rendererPool s) = (Some r, p')"
    by (rule allocRenderer_usable)
  then show ?thesis
    by (auto simp: Worker_run_def Let_def dest: jobFinished_error)
qed



end
